theory Spec2Isabelle
  imports Complex_Main "HOL-Library.Word"
begin

unbundle bit_operations_syntax

section \<open>Machine types\<close>

type_synonym byte = "8 word"
type_synonym short = "16 word"
type_synonym unsigned = "32 word"

text \<open>
  A C++ \<^verbatim>\<open>float\<close> stored in memory is its IEEE-754 binary32 bit pattern. The
  configuration fields are only compared, copied and handed to the engine, so they are
  kept as bit patterns; \<open>valof\<close> below reads the value a pattern denotes.
\<close>

type_synonym float_bits = "32 word"

section \<open>Floating-point values\<close>

datatype fval = Fin rat | PInf | NInf | NaN

definition pow2 :: "int \<Rightarrow> rat" where
  "pow2 k = (if 0 \<le> k then 2 ^ nat k else 1 / 2 ^ nat (- k))"

text \<open>The value of a binary32 bit pattern: sign bit 31, exponent bits 30..23, fraction bits 22..0.\<close>

definition valof :: "float_bits \<Rightarrow> fval" where
  "valof w =
     (let s = bit w 31;
          e = unat (drop_bit 23 w AND 0xFF);
          m = unat (w AND 0x7FFFFF)
      in if e = 255 then (if m = 0 then (if s then NInf else PInf) else NaN)
         else if e = 0 then Fin ((if s then - 1 else 1) * of_nat m * pow2 (- 149))
         else Fin ((if s then - 1 else 1) * of_nat (2 ^ 23 + m) * pow2 (int e - 150)))"

text \<open>The comparisons of C++ on floating-point values: every comparison with a NaN is false.\<close>

fun f_eq :: "fval \<Rightarrow> fval \<Rightarrow> bool" where
  "f_eq (Fin a) (Fin b) = (a = b)"
| "f_eq PInf PInf = True"
| "f_eq NInf NInf = True"
| "f_eq _ _ = False"

fun f_lt :: "fval \<Rightarrow> fval \<Rightarrow> bool" where
  "f_lt (Fin a) (Fin b) = (a < b)"
| "f_lt (Fin a) PInf = True"
| "f_lt NInf (Fin b) = True"
| "f_lt NInf PInf = True"
| "f_lt _ _ = False"

definition f_gt :: "fval \<Rightarrow> fval \<Rightarrow> bool" where
  "f_gt a b = f_lt b a"

fun f_le :: "fval \<Rightarrow> fval \<Rightarrow> bool" where
  "f_le (Fin a) (Fin b) = (a \<le> b)"
| "f_le NaN _ = False"
| "f_le _ NaN = False"
| "f_le NInf _ = True"
| "f_le _ PInf = True"
| "f_le _ _ = False"

section \<open>Parameter store\<close>

text \<open>The component's GUID \<^verbatim>\<open>{8E4A9F2C-3B5D-4E7A-9C1F-6D8B2A4E5F3C}\<close>.\<close>

record GUID =
  Data1 :: "32 word"
  Data2 :: "16 word"
  Data3 :: "16 word"
  Data4 :: "byte list"

definition g_dsp_speedy_guid :: GUID where
  "g_dsp_speedy_guid =
     \<lparr>Data1 = 0x8e4a9f2c, Data2 = 0x3b5d, Data3 = 0x4e7a,
      Data4 = [0x9c, 0x1f, 0x6d, 0x8b, 0x2a, 0x4e, 0x5f, 0x3c]\<rparr>"

text \<open>The defaults; \<open>0x3F800000\<close> is the bit pattern of \<^verbatim>\<open>1.0f\<close>.\<close>

definition kDefaultSpeed :: float_bits where "kDefaultSpeed = 0x3F800000"
definition kDefaultPitch :: float_bits where "kDefaultPitch = 0x3F800000"
definition kDefaultRate :: float_bits where "kDefaultRate = 0x3F800000"
definition kDefaultVolume :: float_bits where "kDefaultVolume = 0x3F800000"
definition kDefaultNonlinear :: bool where "kDefaultNonlinear = False"
definition kDefaultNonlinearFactor :: float_bits where "kDefaultNonlinearFactor = 0x3F800000"

record dsp_speedy_config =
  speed :: float_bits
  pitch :: float_bits
  rate :: float_bits
  volume :: float_bits
  nonlinear_enabled :: bool
  nonlinear_factor :: float_bits

text \<open>The constructor \<^verbatim>\<open>dsp_speedy_config()\<close>.\<close>

definition dsp_speedy_config_new :: dsp_speedy_config where
  "dsp_speedy_config_new =
     \<lparr>speed = kDefaultSpeed, pitch = kDefaultPitch, rate = kDefaultRate,
      volume = kDefaultVolume, nonlinear_enabled = kDefaultNonlinear,
      nonlinear_factor = kDefaultNonlinearFactor\<rparr>"

definition is_default :: "dsp_speedy_config \<Rightarrow> bool" where
  "is_default c =
     (f_eq (valof (speed c)) (valof kDefaultSpeed) \<and>
      f_eq (valof (pitch c)) (valof kDefaultPitch) \<and>
      f_eq (valof (rate c)) (valof kDefaultRate) \<and>
      f_eq (valof (volume c)) (valof kDefaultVolume) \<and>
      nonlinear_enabled c = kDefaultNonlinear)"

text \<open>\<^verbatim>\<open>reset()\<close> assigns a freshly constructed record.\<close>

definition reset :: "dsp_speedy_config \<Rightarrow> dsp_speedy_config" where
  "reset c = dsp_speedy_config_new"

text \<open>The invariant the data model asks of a record: the five multipliers are strictly positive.\<close>

definition strictly_positive :: "float_bits \<Rightarrow> bool" where
  "strictly_positive w = f_gt (valof w) (Fin 0)"

definition config_positive :: "dsp_speedy_config \<Rightarrow> bool" where
  "config_positive c =
     (strictly_positive (speed c) \<and> strictly_positive (pitch c) \<and>
      strictly_positive (rate c) \<and> strictly_positive (volume c) \<and>
      strictly_positive (nonlinear_factor c))"

subsection \<open>Presets\<close>

text \<open>A \<^verbatim>\<open>dsp_preset\<close> as the two functions read it: its owner and its data bytes.\<close>

record dsp_preset =
  owner :: GUID
  preset_data :: "byte list"

text \<open>The bytes of a float in memory (little-endian, as on every target of the component).\<close>

definition float_bytes :: "float_bits \<Rightarrow> byte list" where
  "float_bytes w = [ucast w, ucast (drop_bit 8 w), ucast (drop_bit 16 w), ucast (drop_bit 24 w)]"

text \<open>\<^verbatim>\<open>floats[k]\<close> of a byte buffer reinterpreted as an array of floats.\<close>

definition floats_at :: "byte list \<Rightarrow> nat \<Rightarrow> float_bits" where
  "floats_at d k =
     (ucast (d ! (4 * k)) OR push_bit 8 (ucast (d ! (4 * k + 1))) OR
      push_bit 16 (ucast (d ! (4 * k + 2))) OR push_bit 24 (ucast (d ! (4 * k + 3))))"

text \<open>
  The byte a \<^verbatim>\<open>bool\<close> is stored as (0 or 1), and the \<^verbatim>\<open>bool\<close> a byte is read
  as: any other byte than 0 counts as true.
\<close>

definition bool_byte :: "bool \<Rightarrow> byte" where
  "bool_byte b = (if b then 1 else 0)"

definition byte_bool :: "byte \<Rightarrow> bool" where
  "byte_bool b = (b \<noteq> 0)"

text \<open>\<^verbatim>\<open>sizeof(float) * 5 + sizeof(bool)\<close>\<close>

definition preset_size :: nat where
  "preset_size = 4 * 5 + 1"

definition make_preset :: "dsp_speedy_config \<Rightarrow> dsp_preset" where
  "make_preset config =
     \<lparr>owner = g_dsp_speedy_guid,
      preset_data =
        float_bytes (speed config) @ float_bytes (pitch config) @ float_bytes (rate config) @
        float_bytes (volume config) @ float_bytes (nonlinear_factor config) @
        [bool_byte (nonlinear_enabled config)]\<rparr>"

text \<open>
  \<^verbatim>\<open>parse_preset\<close> updates the record it is given. Nothing in the body of its
  \<^verbatim>\<open>try\<close> block throws, so the handler (another \<^verbatim>\<open>reset\<close>) has no branch here.
\<close>

definition parse_preset :: "dsp_preset \<Rightarrow> dsp_speedy_config \<Rightarrow> dsp_speedy_config" where
  "parse_preset preset config =
     (if owner preset \<noteq> g_dsp_speedy_guid then reset config
      else
        let d = preset_data preset; size = length d
        in if size \<ge> preset_size
           then config\<lparr>speed := floats_at d 0, pitch := floats_at d 1, rate := floats_at d 2,
                  volume := floats_at d 3, nonlinear_factor := floats_at d 4,
                  nonlinear_enabled := byte_bool (d ! (4 * 5))\<rparr>
           else reset config)"

section \<open>Floating-point arithmetic\<close>

text \<open>The number of binary digits of a natural number.\<close>

fun blen :: "nat \<Rightarrow> nat" where
  "blen n = (if n = 0 then 0 else Suc (blen (n div 2)))"

declare blen.simps [simp del]

text \<open>The binary exponent of a positive rational: the largest \<open>e\<close> with \<open>2 ^ e \<le> a\<close>.\<close>

definition ilog2 :: "rat \<Rightarrow> int" where
  "ilog2 a =
     (if 1 \<le> a then int (blen (nat \<lfloor>a\<rfloor>)) - 1
      else - int (blen (nat (\<lceil>1 / a\<rceil> - 1))))"

text \<open>Rounding to the nearest integer, ties to even.\<close>

definition round_half_even :: "rat \<Rightarrow> int" where
  "round_half_even y =
     (let f = \<lfloor>y\<rfloor>; d = y - of_int f
      in if d < 1 / 2 then f else if 1 / 2 < d then f + 1 else if even f then f else f + 1)"

text \<open>
  IEEE-754 rounding (to nearest, ties to even) of an exact result to a binary format with
  \<open>p\<close> significand bits and exponents from \<open>emin\<close> to \<open>emax\<close>: the unit in the last place
  is \<open>2 ^ (e - (p - 1))\<close> for the exponent \<open>e\<close> of the argument, never below \<open>emin\<close>
  (subnormals); a result beyond the largest finite value is infinite.
\<close>

definition round_float :: "nat \<Rightarrow> int \<Rightarrow> int \<Rightarrow> rat \<Rightarrow> fval" where
  "round_float p emin emax q =
     (if q = 0 then Fin 0
      else
        let a = \<bar>q\<bar>;
            e = max (ilog2 a) emin;
            u = pow2 (e - (int p - 1));
            r = of_int (round_half_even (a / u)) * u
        in if pow2 (emax + 1) \<le> r then (if 0 < q then PInf else NInf)
           else Fin (if 0 < q then r else - r))"

text \<open>The magnitude that \<open>round_float\<close> computes, for a positive argument.\<close>

definition mag :: "nat \<Rightarrow> int \<Rightarrow> rat \<Rightarrow> rat" where
  "mag p emin a =
     of_int (round_half_even (a / pow2 (max (ilog2 a) emin - (int p - 1)))) *
       pow2 (max (ilog2 a) emin - (int p - 1))"

definition round_binary32 :: "rat \<Rightarrow> fval" where
  "round_binary32 = round_float 24 (- 126) 127"

definition round_binary64 :: "rat \<Rightarrow> fval" where
  "round_binary64 = round_float 53 (- 1022) 1023"

text \<open>
  \<^verbatim>\<open>static_cast<float>(x)\<close> of a floating-point value: rounding to binary32. It leaves
  every value of binary32 as it is (\<open>f_cast_float_valof\<close> below), so it models the cast
  of an \<^verbatim>\<open>audio_sample\<close> whether that type is \<^verbatim>\<open>float\<close> or \<^verbatim>\<open>double\<close>.
\<close>

fun f_cast_float :: "fval \<Rightarrow> fval" where
  "f_cast_float (Fin q) = round_binary32 q"
| "f_cast_float v = v"

text \<open>Multiplication of two \<^verbatim>\<open>float\<close>s.\<close>

fun f_mul :: "fval \<Rightarrow> fval \<Rightarrow> fval" where
  "f_mul NaN _ = NaN"
| "f_mul _ NaN = NaN"
| "f_mul (Fin a) (Fin b) = round_binary32 (a * b)"
| "f_mul (Fin a) PInf = (if a = 0 then NaN else if 0 < a then PInf else NInf)"
| "f_mul (Fin a) NInf = (if a = 0 then NaN else if 0 < a then NInf else PInf)"
| "f_mul PInf (Fin b) = (if b = 0 then NaN else if 0 < b then PInf else NInf)"
| "f_mul NInf (Fin b) = (if b = 0 then NaN else if 0 < b then NInf else PInf)"
| "f_mul PInf PInf = PInf"
| "f_mul PInf NInf = NInf"
| "f_mul NInf PInf = NInf"
| "f_mul NInf NInf = PInf"

text \<open>Division of two \<^verbatim>\<open>double\<close>s by a finite non-zero constant, as the output loop uses it.\<close>

fun d_div_const :: "fval \<Rightarrow> rat \<Rightarrow> fval" where
  "d_div_const (Fin a) c = round_binary64 (a / c)"
| "d_div_const PInf c = (if 0 < c then PInf else NInf)"
| "d_div_const NInf c = (if 0 < c then NInf else PInf)"
| "d_div_const NaN c = NaN"

text \<open>Truncation towards zero, the rule of a C++ conversion from floating point to integer.\<close>

definition rat_trunc :: "rat \<Rightarrow> int" where
  "rat_trunc q = (if 0 \<le> q then \<lfloor>q\<rfloor> else \<lceil>q\<rceil>)"

text \<open>
  \<^verbatim>\<open>static_cast<short>(sample)\<close>. The language defines it only where the truncated value
  fits a \<^verbatim>\<open>short\<close>; the clamps before it leave a NaN as the one other case. The
  component's targets (x86 and x64) convert through a 32-bit integer and keep the low 16
  bits, and convert a NaN to the integer \<open>0x80000000\<close>, whose low 16 bits are 0.
\<close>

fun float_to_short :: "fval \<Rightarrow> short" where
  "float_to_short (Fin q) = word_of_int (rat_trunc q)"
| "float_to_short v = 0"

section \<open>Sample codec\<close>

text \<open>
  The body of the input loop of \<^verbatim>\<open>on_chunk\<close>:
  \<^verbatim>\<open>
    float sample = static_cast<float>(input[i]) * 32767.0f;
    if (sample > 32767.0f) sample = 32767.0f;
    if (sample < -32768.0f) sample = -32768.0f;
    m_input_buffer[i] = static_cast<short>(sample);
  \<close>
\<close>

definition to_fixed :: "fval \<Rightarrow> short" where
  "to_fixed x =
     (let sample = f_mul (f_cast_float x) (Fin 32767);
          sample = (if f_gt sample (Fin 32767) then Fin 32767 else sample);
          sample = (if f_lt sample (Fin (- 32768)) then Fin (- 32768) else sample)
      in float_to_short sample)"

text \<open>
  The conversion as the specification words it: multiply by 32767.0, clamp to
  [-32768.0, 32767.0], truncate; as a mathematical integer, to compare with the 16-bit
  result of \<open>to_fixed\<close>. (The specification says nothing of a NaN; it is given the
  value of the cast above.)
\<close>

definition to_fixed_spec :: "fval \<Rightarrow> int" where
  "to_fixed_spec x =
     (case f_mul (f_cast_float x) (Fin 32767) of
        Fin r \<Rightarrow> rat_trunc (max (- 32768) (min 32767 r))
      | PInf \<Rightarrow> 32767
      | NInf \<Rightarrow> - 32768
      | NaN \<Rightarrow> 0)"

text \<open>
  The body of the output loop:
  \<^verbatim>\<open>static_cast<audio_sample>(m_output_buffer[i]) / 32767.0\<close>, a division in
  \<^verbatim>\<open>double\<close> stored as an \<^verbatim>\<open>audio_sample\<close>. The SDK's typedef of
  \<^verbatim>\<open>audio_sample\<close> is not part of the sources; the model takes the \<^verbatim>\<open>float\<close> of
  the 32-bit builds, so the quotient is rounded once more, to binary32. (Where
  \<^verbatim>\<open>audio_sample\<close> is \<^verbatim>\<open>double\<close> this last rounding does not happen.)
\<close>

definition to_float :: "short \<Rightarrow> fval" where
  "to_float v = f_cast_float (d_div_const (Fin (of_int (sint v))) 32767)"

section \<open>The engine\<close>

text \<open>
  The stretch engine is the Sonic library behind \<^verbatim>\<open>sonic2.h\<close>, which is not part of
  the sources. A stream handle is an address; the null pointer is \<open>None\<close> of an option.
\<close>

type_synonym sonicStream = nat

text \<open>
  An \<^verbatim>\<open>int\<close> of the code where its 32 bits matter: a word read as signed by
  \<open>sint\<close>, on which \<open>+\<close> and \<open>-\<close> wrap around.
\<close>

type_synonym int32 = "32 word"

text \<open>
  Modelled from the spec: the operations of the engine that the adapter consumes (create,
  set-speed, set-pitch, set-rate, set-volume, enable-nonlinear, write, read, flush,
  destroy), under the names the code calls them by. A call carries its arguments; the
  write carries the input buffer and the number of frames, the read the maximum it asks
  for.
\<close>

datatype call =
    sonicCreateStream unsigned unsigned
  | sonicDestroyStream sonicStream
  | sonicSetSpeed sonicStream float_bits
  | sonicIntSetPitch sonicStream float_bits
  | sonicSetRate sonicStream float_bits
  | sonicIntSetVolume sonicStream float_bits
  | sonicEnableNonlinearSpeedup sonicStream float_bits
  | sonicWriteShortToStream sonicStream "short list" int
  | sonicReadShortFromStream sonicStream int
  | sonicFlushStream sonicStream

text \<open>
  Modelled from the spec: the engine is a black box, so it is a parameter of the
  adapter's functions. Its answers may depend on everything it was asked before: an
  engine is given by its answers as functions of the calls made so far.
  \<open>create_result\<close> is the new stream, or \<open>None\<close> for a null pointer;
  \<open>write_result\<close> the returned \<^verbatim>\<open>int\<close>, 0 when the write is rejected;
  \<open>read_result\<close> the returned number of sample frames, an \<^verbatim>\<open>int\<close> of 32 bits, and
  the samples the engine stored at the pointer it was given.
\<close>

record sonic =
  create_result :: "call list \<Rightarrow> unsigned \<Rightarrow> unsigned \<Rightarrow> sonicStream option"
  write_result :: "call list \<Rightarrow> sonicStream \<Rightarrow> short list \<Rightarrow> int \<Rightarrow> int"
  read_result :: "call list \<Rightarrow> sonicStream \<Rightarrow> int \<Rightarrow> int32 \<times> short list"

text \<open>
  The contract of the read operation (\<open>read(handle, out-buffer, max-count) \<rightarrow> count\<close>): it
  returns at most the \<open>max-count\<close> it is given, and nothing for a \<open>max-count\<close> below 1.
  The adapter's output buffer has room for exactly that many frames.
\<close>

definition read_honours_max :: "sonic \<Rightarrow> bool" where
  "read_honours_max eng =
     (\<forall>t stream m. sint (fst (read_result eng t stream m)) \<le> max m 0)"

section \<open>Audio chunks and buffers\<close>

type_synonym audio_sample = fval

text \<open>
  An \<^verbatim>\<open>audio_chunk\<close> as \<^verbatim>\<open>on_chunk\<close> reads it: \<^verbatim>\<open>get_data\<close>,
  \<^verbatim>\<open>get_sample_count\<close>, \<^verbatim>\<open>get_srate\<close>, \<^verbatim>\<open>get_channels\<close>,
  \<^verbatim>\<open>get_channel_config\<close>. A chunk of the host holds
  \<open>sample_count * channels\<close> interleaved samples.
\<close>

record audio_chunk =
  chunk_data :: "audio_sample list"
  sample_count :: nat
  srate :: unsigned
  channels :: unsigned
  channel_config :: unsigned

text \<open>
  The first \<open>n\<close> elements of the array at a pointer. Beyond the end of the array the
  values are unspecified, as those of \<open>xs ! i\<close> are.
\<close>

definition array_read :: "'a list \<Rightarrow> nat \<Rightarrow> 'a list" where
  "array_read xs n = map (\<lambda>i. xs ! i) [0..<n]"

text \<open>
  Modelled from the spec: the host buffer's replace-contents operation
  (\<^verbatim>\<open>audio_chunk::set_data\<close> of the SDK, not part of the sources). It copies
  \<open>samples * nch\<close> samples from the source and sets count, channels, rate and layout.
\<close>

definition set_data ::
  "audio_sample list \<Rightarrow> nat \<Rightarrow> unsigned \<Rightarrow> unsigned \<Rightarrow> unsigned \<Rightarrow> audio_chunk \<Rightarrow> audio_chunk" where
  "set_data src samples nch sr cc chunk =
     chunk\<lparr>chunk_data := array_read src (samples * unat nch), sample_count := samples,
           channels := nch, srate := sr, channel_config := cc\<rparr>"

text \<open>\<^verbatim>\<open>std::vector::resize\<close>: cut, or extended with value-initialised elements.\<close>

definition resize :: "nat \<Rightarrow> 'a \<Rightarrow> 'a list \<Rightarrow> 'a list" where
  "resize n z xs = take n xs @ replicate (n - length xs) z"

text \<open>
  \<^verbatim>\<open>for (i = 0; i < n; i++) v[i] = f(i);\<close> on a vector: the elements below \<open>n\<close> are
  assigned, the others kept. (An index beyond the vector would write past it; the loops of
  \<^verbatim>\<open>on_chunk\<close> run on a vector resized to their bound.)
\<close>

definition assign_loop :: "nat \<Rightarrow> (nat \<Rightarrow> 'a) \<Rightarrow> 'a list \<Rightarrow> 'a list" where
  "assign_loop n f v = map (\<lambda>i. if i < n then f i else v ! i) [0..<length v]"

text \<open>
  The engine's read stores its samples at \<^verbatim>\<open>buffer + offset\<close>. Within the buffer this
  overwrites a slice of it. (An engine that stores more than it was asked for writes past
  the vector; the list then grows instead.)
\<close>

definition store_at :: "nat \<Rightarrow> 'a list \<Rightarrow> 'a list \<Rightarrow> 'a list" where
  "store_at off xs buf = take off buf @ xs @ drop (off + length xs) buf"

text \<open>\<^verbatim>\<open>static_cast<int>\<close> of a \<^verbatim>\<open>t_size\<close>: the low 32 bits, read as signed.\<close>

definition to_int :: "nat \<Rightarrow> int" where
  "to_int n = sint (word_of_nat n :: 32 word)"

section \<open>Stream adapter\<close>

record dsp_speedy =
  m_config :: dsp_speedy_config
  m_stream :: "sonicStream option"
  m_sample_rate :: unsigned
  m_channels :: unsigned
  m_channel_config :: unsigned
  m_input_buffer :: "short list"
  m_output_buffer :: "short list"
  m_audio_output :: "audio_sample list"

text \<open>The constructor \<^verbatim>\<open>dsp_speedy(const dsp_preset&)\<close>.\<close>

definition dsp_speedy_new :: "dsp_preset \<Rightarrow> dsp_speedy" where
  "dsp_speedy_new preset =
     \<lparr>m_config = parse_preset preset dsp_speedy_config_new, m_stream = None,
      m_sample_rate = 0, m_channels = 0, m_channel_config = 0,
      m_input_buffer = [], m_output_buffer = [], m_audio_output = []\<rparr>"

text \<open>
  The member functions below take the adapter's state together with the calls made to the
  engine so far, and return both.
\<close>

definition cleanup_stream :: "dsp_speedy \<times> call list \<Rightarrow> dsp_speedy \<times> call list" where
  "cleanup_stream = (\<lambda>(s, t).
     case m_stream s of
       None \<Rightarrow> (s, t)
     | Some stream \<Rightarrow> (s\<lparr>m_stream := None\<rparr>, t @ [sonicDestroyStream stream]))"

definition init_stream ::
  "sonic \<Rightarrow> unsigned \<Rightarrow> unsigned \<Rightarrow> dsp_speedy \<times> call list \<Rightarrow> bool \<times> dsp_speedy \<times> call list" where
  "init_stream eng sample_rate chans = (\<lambda>(s, t).
     let created = create_result eng t sample_rate chans;
         s = s\<lparr>m_stream := created\<rparr>;
         t = t @ [sonicCreateStream sample_rate chans]
     in case created of
          None \<Rightarrow> (False, s, t)
        | Some stream \<Rightarrow>
            let t = t @ [sonicSetSpeed stream (speed (m_config s)),
                         sonicIntSetPitch stream (pitch (m_config s)),
                         sonicSetRate stream (rate (m_config s)),
                         sonicIntSetVolume stream (volume (m_config s))];
                t = (if nonlinear_enabled (m_config s)
                     then t @ [sonicEnableNonlinearSpeedup stream (nonlinear_factor (m_config s))]
                     else t)
            in (True, s, t))"

text \<open>\<^verbatim>\<open>flush()\<close>\<close>

definition flush :: "dsp_speedy \<times> call list \<Rightarrow> dsp_speedy \<times> call list" where
  "flush st =
     (let (s, t) = cleanup_stream st
      in (s\<lparr>m_sample_rate := 0, m_channels := 0, m_channel_config := 0\<rparr>, t))"

text \<open>
  The format check of \<^verbatim>\<open>on_chunk\<close> (\<^verbatim>\<open>// Check if format changed\<close>). The returned
  flag is false where the code leaves \<^verbatim>\<open>on_chunk\<close> with \<^verbatim>\<open>return true\<close> because the
  engine could not be created.
\<close>

definition format_differs :: "dsp_speedy \<Rightarrow> audio_chunk \<Rightarrow> bool" where
  "format_differs s chunk =
     (srate chunk \<noteq> m_sample_rate s \<or> channels chunk \<noteq> m_channels s \<or>
      channel_config chunk \<noteq> m_channel_config s)"

definition check_format ::
  "sonic \<Rightarrow> audio_chunk \<Rightarrow> dsp_speedy \<times> call list \<Rightarrow> bool \<times> dsp_speedy \<times> call list" where
  "check_format eng chunk st =
     (if format_differs (fst st) chunk then
        let (ok, s, t) = init_stream eng (srate chunk) (channels chunk) (cleanup_stream st)
        in if \<not> ok then (False, s, t)
           else (True, s\<lparr>m_sample_rate := srate chunk, m_channels := channels chunk,
                         m_channel_config := channel_config chunk\<rparr>, t)
      else (True, fst st, snd st))"

text \<open>
  The drain loop:
  \<^verbatim>\<open>
    while ((samples_read = sonicReadShortFromStream(m_stream,
            m_output_buffer.data() + total_read * channels,
            max_samples - total_read)) > 0) {
        total_read += samples_read;
        if (total_read >= max_samples) break;
    }
  \<close>
  on the output buffer, the calls so far and \<^verbatim>\<open>total_read\<close>. The three \<^verbatim>\<open>int\<close>s
  are 32-bit words: the sum and the difference wrap around, the comparisons are signed.
  The offset is a product of an \<^verbatim>\<open>int\<close> and an \<^verbatim>\<open>unsigned\<close>, computed in 32
  bits. Nothing in the loop bounds what the engine returns, so the loop need not end: the
  result is \<open>None\<close> when it runs forever.
\<close>

partial_function (option) drain ::
  "sonic \<Rightarrow> sonicStream \<Rightarrow> unsigned \<Rightarrow> int32 \<Rightarrow> short list \<times> call list \<times> int32 \<Rightarrow>
   (short list \<times> call list \<times> int32) option" where
  "drain eng stream chans max_samples st =
     (case st of (buf, t, total_read) \<Rightarrow>
        let r = read_result eng t stream (sint (max_samples - total_read));
            samples_read = fst r;
            buf = store_at (unat (total_read * chans)) (snd r) buf;
            t = t @ [sonicReadShortFromStream stream (sint (max_samples - total_read))]
        in if 0 < sint samples_read then
             (if sint max_samples \<le> sint (total_read + samples_read)
              then Some (buf, t, total_read + samples_read)
              else drain eng stream chans max_samples (buf, t, total_read + samples_read))
           else Some (buf, t, total_read))"


text \<open>
  The rest of \<^verbatim>\<open>on_chunk\<close>, from \<^verbatim>\<open>// Get input samples\<close> on, runs with the live
  stream, in four steps. The sizes \<open>sample_count * channels\<close> are products in
  \<^verbatim>\<open>t_size\<close>, exact for a chunk that exists in memory; the sizes computed from an
  \<^verbatim>\<open>int\<close> and an \<^verbatim>\<open>unsigned\<close> are 32-bit products.

  \<^verbatim>\<open>// Convert float samples to short for Sonic (with clamping)\<close>
\<close>

definition convert_input :: "audio_chunk \<Rightarrow> dsp_speedy \<Rightarrow> dsp_speedy" where
  "convert_input chunk s =
     (let input = chunk_data chunk;
          n = sample_count chunk * unat (channels chunk)
      in s\<lparr>m_input_buffer :=
             assign_loop n (\<lambda>i. to_fixed (input ! i)) (resize n 0 (m_input_buffer s))\<rparr>)"

text \<open>\<^verbatim>\<open>// Write to Sonic stream\<close>: the engine's answer and the calls so far.\<close>

definition write_input ::
  "sonic \<Rightarrow> sonicStream \<Rightarrow> audio_chunk \<Rightarrow> dsp_speedy \<times> call list \<Rightarrow> int \<times> call list" where
  "write_input eng stream chunk = (\<lambda>(s, t).
     (write_result eng t stream (m_input_buffer s) (to_int (sample_count chunk)),
      t @ [sonicWriteShortToStream stream (m_input_buffer s) (to_int (sample_count chunk))]))"

text \<open>
  \<^verbatim>\<open>// Read all available processed samples\<close>: \<^verbatim>\<open>total_read\<close>, state and calls
  when the loop ends, \<open>None\<close> when it does not. \<^verbatim>\<open>max_samples\<close> is the
  \<^verbatim>\<open>static_cast<int>\<close> of a \<^verbatim>\<open>t_size\<close>, its low 32 bits.
\<close>

definition read_all ::
  "sonic \<Rightarrow> sonicStream \<Rightarrow> audio_chunk \<Rightarrow> dsp_speedy \<times> call list \<Rightarrow>
   (int \<times> dsp_speedy \<times> call list) option" where
  "read_all eng stream chunk = (\<lambda>(s, t).
     let max_samples = (word_of_nat (sample_count chunk * 4) :: int32);
         outbuf = resize (unat (max_samples * channels chunk)) 0 (m_output_buffer s)
     in case drain eng stream (channels chunk) max_samples (outbuf, t, 0) of
          None \<Rightarrow> None
        | Some (outbuf, t, total_read) \<Rightarrow>
            Some (sint total_read, s\<lparr>m_output_buffer := outbuf\<rparr>, t))"

text \<open>
  The two branches on \<^verbatim>\<open>total_read > 0\<close>: the drained samples converted back, or
  silence of the input's length. The size \<^verbatim>\<open>total_read * channels\<close> and the loop bound
  \<^verbatim>\<open>total_read * static_cast<int>(channels)\<close> are 32-bit products, the one unsigned and
  the other signed.
\<close>

definition emit :: "int \<Rightarrow> dsp_speedy \<times> audio_chunk \<Rightarrow> dsp_speedy \<times> audio_chunk" where
  "emit total_read = (\<lambda>(s, chunk).
     let count = sample_count chunk;
         sample_rate = srate chunk;
         chans = channels chunk;
         chan_config = channel_config chunk
     in if total_read > 0 then
          let audio = assign_loop (nat (sint (word_of_int total_read * chans :: int32)))
                        (\<lambda>i. to_float (m_output_buffer s ! i))
                        (resize (unat (word_of_int total_read * chans :: unsigned)) (Fin 0)
                           (m_audio_output s))
          in (s\<lparr>m_audio_output := audio\<rparr>,
              set_data audio (nat total_read) chans sample_rate chan_config chunk)
        else
          let audio = map (\<lambda>_. Fin 0) (resize (count * unat chans) (Fin 0) (m_audio_output s))
          in (s\<lparr>m_audio_output := audio\<rparr>,
              set_data audio count chans sample_rate chan_config chunk))"

definition process ::
  "sonic \<Rightarrow> sonicStream \<Rightarrow> dsp_speedy \<times> call list \<times> audio_chunk \<Rightarrow>
   (bool \<times> dsp_speedy \<times> call list \<times> audio_chunk) option" where
  "process eng stream = (\<lambda>(s, t, chunk).
     let s = convert_input chunk s;
         (written, t) = write_input eng stream chunk (s, t)
     in if written = 0 then Some (True, s, t, chunk)
        else
          case read_all eng stream chunk (s, t) of
            None \<Rightarrow> None
          | Some (total_read, s, t) \<Rightarrow>
              let (s, chunk) = emit total_read (s, chunk)
              in Some (True, s, t, chunk))"

text \<open>
  \<^verbatim>\<open>on_chunk\<close>: the returned flag, the adapter's state, the calls made to the engine,
  and the chunk; \<open>None\<close> when the call does not return.
\<close>

definition on_chunk ::
  "sonic \<Rightarrow> dsp_speedy \<times> call list \<times> audio_chunk \<Rightarrow>
   (bool \<times> dsp_speedy \<times> call list \<times> audio_chunk) option" where
  "on_chunk eng = (\<lambda>(s, t, chunk).
     if is_default (m_config s) then Some (True, s, t, chunk)
     else
       let (ok, s, t) = check_format eng chunk (s, t)
       in if \<not> ok then Some (True, s, t, chunk)
          else case m_stream s of
                 None \<Rightarrow> Some (True, s, t, chunk)
               | Some stream \<Rightarrow> process eng stream (s, t, chunk))"

section \<open>The session lifecycle, as the specification words it\<close>

text \<open>Tearing down any existing engine instance: one destroy call if a stream is live.\<close>

definition teardown_calls :: "dsp_speedy \<Rightarrow> call list" where
  "teardown_calls s =
     (case m_stream s of None \<Rightarrow> [] | Some stream \<Rightarrow> [sonicDestroyStream stream])"

text \<open>
  Applying the parameter record to a fresh stream: speed, pitch, rate, volume, and the
  nonlinear mode with its factor if it is enabled.
\<close>

definition setup_calls :: "dsp_speedy_config \<Rightarrow> sonicStream \<Rightarrow> call list" where
  "setup_calls c stream =
     [sonicSetSpeed stream (speed c), sonicIntSetPitch stream (pitch c),
      sonicSetRate stream (rate c), sonicIntSetVolume stream (volume c)] @
     (if nonlinear_enabled c then [sonicEnableNonlinearSpeedup stream (nonlinear_factor c)]
      else [])"

text \<open>The adapter bound to a stream created for the format of a chunk.\<close>

definition bound_to :: "sonicStream \<Rightarrow> audio_chunk \<Rightarrow> dsp_speedy \<Rightarrow> dsp_speedy" where
  "bound_to stream chunk s =
     s\<lparr>m_stream := Some stream, m_sample_rate := srate chunk, m_channels := channels chunk,
       m_channel_config := channel_config chunk\<rparr>"

text \<open>The calls that move samples through a stream: writes and reads.\<close>

fun is_transfer :: "sonicStream \<Rightarrow> call \<Rightarrow> bool" where
  "is_transfer stream (sonicWriteShortToStream stream' samples n) = (stream' = stream)"
| "is_transfer stream (sonicReadShortFromStream stream' m) = (stream' = stream)"
| "is_transfer stream c = False"

text \<open>A block of silence.\<close>

definition silence :: "nat \<Rightarrow> audio_sample list" where
  "silence n = replicate n (Fin 0)"

section \<open>Engines for the concrete instances\<close>

text \<open>An engine that cannot be created.\<close>

definition engine_unavailable :: sonic where
  "engine_unavailable =
     \<lparr>create_result = (\<lambda>t sample_rate chans. None),
      write_result = (\<lambda>t stream samples n. 0),
      read_result = (\<lambda>t stream m. (0, []))\<rparr>"

text \<open>An engine that accepts every write and has no output ready.\<close>

definition engine_accumulating :: sonic where
  "engine_accumulating =
     \<lparr>create_result = (\<lambda>t sample_rate chans. Some 1),
      write_result = (\<lambda>t stream samples n. 1),
      read_result = (\<lambda>t stream m. (0, []))\<rparr>"

text \<open>
  A stereo engine that never runs dry: every read fills all the frames it is asked for.
\<close>

definition engine_flooding :: sonic where
  "engine_flooding =
     \<lparr>create_result = (\<lambda>t sample_rate chans. Some 1),
      write_result = (\<lambda>t stream samples n. 1),
      read_result = (\<lambda>t stream m. (word_of_int (max m 0), replicate (2 * nat m) 1))\<rparr>"

text \<open>
  A stereo engine that ignores the maximum it is asked for: every read reports a thousand
  frames.
\<close>

definition engine_overrunning :: sonic where
  "engine_overrunning =
     \<lparr>create_result = (\<lambda>t sample_rate chans. Some 1),
      write_result = (\<lambda>t stream samples n. 1),
      read_result = (\<lambda>t stream m. (1000, replicate 2000 1))\<rparr>"

text \<open>
  An engine that reports more than it is asked for in a way that makes \<^verbatim>\<open>total_read\<close>
  wrap around: \<^verbatim>\<open>INT_MAX\<close> frames when it is asked for 7 or for a negative number,
  one frame otherwise.
\<close>

definition engine_wrapping :: sonic where
  "engine_wrapping =
     \<lparr>create_result = (\<lambda>t sample_rate chans. Some 1),
      write_result = (\<lambda>t stream samples n. 1),
      read_result = (\<lambda>t stream m. (if m = 7 \<or> m < 0 then 0x7FFFFFFF else 1, []))\<rparr>"

text \<open>A stereo chunk of two frames at 44100 Hz, and a non-default configuration.\<close>

definition chunk_44100_stereo :: audio_chunk where
  "chunk_44100_stereo =
     \<lparr>chunk_data = [Fin (1 / 2), Fin (- 1 / 2), Fin 1, Fin (- 1)], sample_count = 2,
      srate = 44100, channels = 2, channel_config = 3\<rparr>"

definition config_double_speed :: dsp_speedy_config where
  "config_double_speed = dsp_speedy_config_new\<lparr>speed := 0x40000000\<rparr>"

section \<open>Properties of the floating-point arithmetic\<close>

text \<open>Powers of two.\<close>

lemma pow2_powi: "pow2 k = 2 powi k"
  by (simp add: pow2_def power_int_def field_simps)

lemma pow2_pos: "0 < pow2 k"
  by (simp add: pow2_powi)

lemma pow2_add: "pow2 (a + b) = pow2 a * pow2 b"
  by (simp add: pow2_powi power_int_add)

lemma pow2_mono: "a \<le> b \<Longrightarrow> pow2 a \<le> pow2 b"
  by (simp add: pow2_powi power_int_increasing)

lemma pow2_nat: "pow2 (int n) = 2 ^ n"
  by (simp add: pow2_def)

text \<open>The exponent of a positive rational \<open>a\<close> is exact: \<open>2 ^ ilog2 a \<le> a < 2 ^ (ilog2 a + 1)\<close>.\<close>

lemma blen_pos: "0 < n \<Longrightarrow> 0 < blen n"
  by (subst blen.simps) simp

lemma blen_Suc_0: "blen (Suc 0) = Suc 0"
  by (simp add: blen.simps [of "Suc 0"] blen.simps [of 0])

lemma blen_bounds: "0 < n \<Longrightarrow> 2 ^ (blen n - 1) \<le> n \<and> n < 2 ^ blen n"
proof (induction n rule: blen.induct)
  case (1 n)
  show ?case
  proof (cases "n div 2 = 0")
    case True
    with 1 have "n = 1" by presburger
    then show ?thesis by (simp add: blen_Suc_0)
  next
    case False
    with 1 have IH: "2 ^ (blen (n div 2) - 1) \<le> n div 2" "n div 2 < 2 ^ blen (n div 2)"
      by simp_all
    from False have b: "0 < blen (n div 2)" by (simp add: blen_pos)
    have "blen n = Suc (blen (n div 2))" using 1(2) by (subst blen.simps) simp
    moreover have "2 ^ blen (n div 2) \<le> n"
    proof -
      have "2 * 2 ^ (blen (n div 2) - 1) \<le> 2 * (n div 2)" using IH(1) by simp
      moreover have "2 * 2 ^ (blen (n div 2) - 1) = (2::nat) ^ blen (n div 2)"
        using b by (metis Suc_pred' power_Suc)
      ultimately show ?thesis by linarith
    qed
    moreover have "n < 2 * 2 ^ blen (n div 2)" using IH(2) by linarith
    ultimately show ?thesis by simp
  qed
qed

lemma ilog2_bounds:
  assumes "0 < a"
  shows "pow2 (ilog2 a) \<le> a \<and> a < pow2 (ilog2 a + 1)"
proof (cases "1 \<le> a")
  case True
  define n where "n = nat \<lfloor>a\<rfloor>"
  have n: "0 < n" "of_nat n \<le> a" "a < of_nat n + 1"
    using True unfolding n_def by simp_all linarith
  have e: "ilog2 a = int (blen n) - 1" using True by (simp add: ilog2_def n_def)
  from blen_bounds[OF n(1)] have b: "2 ^ (blen n - 1) \<le> n" "n < 2 ^ blen n" by simp_all
  have bl: "0 < blen n" using n(1) by (rule blen_pos)
  have "pow2 (ilog2 a) = 2 ^ (blen n - 1)"
    using bl by (simp add: e pow2_def nat_diff_distrib')
  moreover have "(2::rat) ^ (blen n - 1) \<le> of_nat n"
    using b(1) by (metis of_nat_le_iff of_nat_numeral of_nat_power)
  moreover have "pow2 (ilog2 a + 1) = 2 ^ blen n"
    by (simp add: e pow2_def)
  moreover have "of_nat n + 1 \<le> (2::rat) ^ blen n"
  proof -
    have "n + 1 \<le> 2 ^ blen n" using b(2) by simp
    then have "(of_nat (n + 1) :: rat) \<le> of_nat (2 ^ blen n)" by (rule of_nat_mono)
    then show ?thesis by simp
  qed
  ultimately show ?thesis using n by linarith
next
  case False
  define y where "y = 1 / a"
  have y: "1 < y" using False assms by (simp add: y_def)
  define m where "m = nat (\<lceil>y\<rceil> - 1)"
  have c: "2 \<le> \<lceil>y\<rceil>" using y by linarith
  have m: "0 < m" "of_nat m < y" "y \<le> of_nat m + 1"
    using c unfolding m_def by simp_all linarith+
  have e: "ilog2 a = - int (blen m)" using False by (simp add: ilog2_def m_def y_def)
  from blen_bounds[OF m(1)] have b: "2 ^ (blen m - 1) \<le> m" "m < 2 ^ blen m" by simp_all
  have bl: "0 < blen m" using m(1) by (rule blen_pos)
  have "of_nat m + 1 \<le> (2::rat) ^ blen m"
  proof -
    have "m + 1 \<le> 2 ^ blen m" using b(2) by simp
    then have "(of_nat (m + 1) :: rat) \<le> of_nat (2 ^ blen m)" by (rule of_nat_mono)
    then show ?thesis by simp
  qed
  then have y1: "y \<le> 2 ^ blen m" using m by linarith
  have "(2::rat) ^ (blen m - 1) \<le> of_nat m"
    using b(1) by (metis of_nat_le_iff of_nat_numeral of_nat_power)
  then have y2: "2 ^ (blen m - 1) < y" using m by linarith
  have p1: "pow2 (ilog2 a) = 1 / 2 ^ blen m"
    using bl by (simp add: e pow2_def)
  have p2: "pow2 (ilog2 a + 1) = 1 / 2 ^ (blen m - 1)"
    using bl by (auto simp add: e pow2_def nat_diff_distrib' split: if_splits) 
  have a: "a = 1 / y" by (simp add: y_def)
  have "1 / 2 ^ blen m \<le> 1 / y" using y1 y by (simp add: frac_le)
  moreover have "1 / y < 1 / 2 ^ (blen m - 1)" using y2 by (simp add: frac_less2)
  ultimately have "pow2 (ilog2 a) \<le> 1 / y \<and> 1 / y < pow2 (ilog2 a + 1)"
    unfolding p1 p2 by simp
  then show ?thesis by (simp add: y_def)
qed


lemma ilog2_mono:
  assumes "0 < a" "a \<le> b"
  shows "ilog2 a \<le> ilog2 b"
proof (rule ccontr)
  assume "\<not> ilog2 a \<le> ilog2 b"
  then have "ilog2 b + 1 \<le> ilog2 a" by simp
  then have "pow2 (ilog2 b + 1) \<le> pow2 (ilog2 a)" by (rule pow2_mono)
  moreover have "pow2 (ilog2 a) \<le> a" using ilog2_bounds [OF assms(1)] by simp
  moreover have "b < pow2 (ilog2 b + 1)" using ilog2_bounds [of b] assms by simp
  ultimately show False using assms(2) by linarith
qed

text \<open>Rounding to an integer is monotone and leaves integers where they are.\<close>

lemma round_half_even_le: "y \<le> of_int m \<Longrightarrow> round_half_even y \<le> m"
proof -
  assume a: "y \<le> of_int m"
  then have f: "\<lfloor>y\<rfloor> \<le> m" by (simp add: floor_le_iff) 
  show ?thesis
  proof (cases "\<lfloor>y\<rfloor> = m")
    case True
    then have "y = of_int \<lfloor>y\<rfloor>" using a by (metis of_int_floor_le order_antisym)
    then have "y - of_int \<lfloor>y\<rfloor> = 0" by simp
    then show ?thesis using True by (simp add: round_half_even_def Let_def)
  next
    case False
    with f have "\<lfloor>y\<rfloor> + 1 \<le> m" by simp
    then show ?thesis by (simp add: round_half_even_def Let_def)
  qed
qed

lemma round_half_even_ge: "of_int m \<le> y \<Longrightarrow> m \<le> round_half_even y"
proof -
  assume "of_int m \<le> y"
  then have "m \<le> \<lfloor>y\<rfloor>" by (simp add: le_floor_iff)
  then show ?thesis by (simp add: round_half_even_def Let_def)
qed

lemma round_half_even_mono:
  assumes "y \<le> z"
  shows "round_half_even y \<le> round_half_even z"
proof (cases "\<lfloor>y\<rfloor> = \<lfloor>z\<rfloor>")
  case True
  then have "y - of_int \<lfloor>y\<rfloor> \<le> z - of_int \<lfloor>z\<rfloor>" using assms by simp
  then show ?thesis using True by (simp add: round_half_even_def Let_def)
next
  case False
  have "\<lfloor>y\<rfloor> \<le> \<lfloor>z\<rfloor>" using assms by (rule floor_mono)
  with False have "\<lfloor>y\<rfloor> + 1 \<le> \<lfloor>z\<rfloor>" by simp
  moreover have "round_half_even y \<le> \<lfloor>y\<rfloor> + 1" by (simp add: round_half_even_def Let_def)
  moreover have "\<lfloor>z\<rfloor> \<le> round_half_even z" by (simp add: round_half_even_def Let_def)
  ultimately show ?thesis by linarith
qed

text \<open>Rounding to a binary format is monotone.\<close>

lemma round_float_mag:
  "round_float p emin emax q =
     (if q = 0 then Fin 0
      else if pow2 (emax + 1) \<le> mag p emin \<bar>q\<bar> then (if 0 < q then PInf else NInf)
      else Fin (if 0 < q then mag p emin \<bar>q\<bar> else - mag p emin \<bar>q\<bar>))"
  by (simp add: round_float_def mag_def Let_def)

lemma mag_nonneg: "0 < a \<Longrightarrow> 0 \<le> mag p emin a"
proof -
  assume "0 < a"
  then have "of_int 0 \<le> a / pow2 (max (ilog2 a) emin - (int p - 1))"
    using pow2_pos [of "max (ilog2 a) emin - (int p - 1)"] by simp
  then have "0 \<le> round_half_even (a / pow2 (max (ilog2 a) emin - (int p - 1)))"
    by (rule round_half_even_ge)
  then show ?thesis using pow2_pos [THEN less_imp_le] by (simp add: mag_def)
qed

lemma mag_upper:
  assumes "0 < a" "0 < p"
  shows "mag p emin a \<le> pow2 (max (ilog2 a) emin + 1)"
proof -
  define e where "e = max (ilog2 a) emin"
  define u where "u = pow2 (e - (int p - 1))"
  have u: "0 < u" by (simp add: u_def pow2_pos)
  have "a < pow2 (ilog2 a + 1)" using ilog2_bounds [OF assms(1)] by simp
  also have "\<dots> \<le> pow2 (e + 1)" by (rule pow2_mono) (simp add: e_def)
  also have "pow2 (e + 1) = pow2 (int p) * u"
    unfolding u_def pow2_add [symmetric] by simp
  finally have "a / u < pow2 (int p)" using u by (simp add: pos_divide_less_eq)
  then have "a / u \<le> of_int (2 ^ p)" by (simp add: pow2_nat)
  then have "round_half_even (a / u) \<le> 2 ^ p" by (rule round_half_even_le)
  then have "(of_int (round_half_even (a / u)) :: rat) \<le> of_int (2 ^ p)" by (simp only: of_int_le_iff)
  then have "of_int (round_half_even (a / u)) * u \<le> pow2 (int p) * u"
    using u by (simp add: pow2_nat)
  also have "pow2 (int p) * u = pow2 (e + 1)"
    unfolding u_def pow2_add [symmetric] by simp
  finally show ?thesis by (simp add: mag_def u_def e_def)
qed

lemma mag_lower:
  assumes "0 < a" "0 < p" "emin \<le> ilog2 a"
  shows "pow2 (ilog2 a) \<le> mag p emin a"
proof -
  define e where "e = ilog2 a"
  define u where "u = pow2 (e - (int p - 1))"
  have m: "max (ilog2 a) emin = e" using assms(3) by (simp add: e_def)
  have u: "0 < u" by (simp add: u_def pow2_pos)
  have pe: "pow2 e = pow2 (int (p - 1)) * u"
    unfolding u_def pow2_add [symmetric] using assms(2) by (simp add: of_nat_diff)
  have "pow2 e \<le> a" using ilog2_bounds [OF assms(1)] by (simp add: e_def)
  then have "pow2 (int (p - 1)) \<le> a / u" using u by (simp add: pe pos_le_divide_eq)
  then have "of_int (2 ^ (p - 1)) \<le> a / u" by (simp add: pow2_nat)
  then have "2 ^ (p - 1) \<le> round_half_even (a / u)" by (rule round_half_even_ge)
  then have "(of_int (2 ^ (p - 1)) :: rat) \<le> of_int (round_half_even (a / u))"
    by (simp only: of_int_le_iff)
  then have "pow2 (int (p - 1)) * u \<le> of_int (round_half_even (a / u)) * u"
    using u by (simp add: pow2_nat)
  then have "pow2 e \<le> of_int (round_half_even (a / u)) * u"
    by (simp only: pe)
  then show ?thesis unfolding mag_def m u_def e_def .
qed

lemma mag_mono:
  assumes "0 < a" "a \<le> b" "0 < p"
  shows "mag p emin a \<le> mag p emin b"
proof -
  have b: "0 < b" using assms by simp
  have le: "max (ilog2 a) emin \<le> max (ilog2 b) emin"
    using ilog2_mono [OF assms(1,2)] by simp
  show ?thesis
  proof (cases "max (ilog2 a) emin = max (ilog2 b) emin")
    case True
    define u where "u = pow2 (max (ilog2 b) emin - (int p - 1))"
    have u: "0 < u" by (simp add: u_def pow2_pos)
    have "a / u \<le> b / u" using assms(2) u by (simp add: divide_right_mono)
    then have "round_half_even (a / u) \<le> round_half_even (b / u)" by (rule round_half_even_mono)
    then have "(of_int (round_half_even (a / u)) :: rat) \<le> of_int (round_half_even (b / u))"
      by (simp only: of_int_le_iff)
    then have "of_int (round_half_even (a / u)) * u \<le> of_int (round_half_even (b / u)) * u"
      using u by simp
    then show ?thesis by (simp add: mag_def True u_def)
  next
    case False
    with le have lt: "max (ilog2 a) emin + 1 \<le> max (ilog2 b) emin" by simp
    then have eb: "emin \<le> ilog2 b" "max (ilog2 b) emin = ilog2 b" by simp_all
    have "mag p emin a \<le> pow2 (max (ilog2 a) emin + 1)" using assms by (simp add: mag_upper)
    also have "\<dots> \<le> pow2 (ilog2 b)" using lt eb by (simp add: pow2_mono)
    also have "\<dots> \<le> mag p emin b" using b assms(3) eb(1) by (rule mag_lower)
    finally show ?thesis .
  qed
qed

lemma round_float_mono:
  assumes "a \<le> b" "0 < p"
  shows "f_le (round_float p emin emax a) (round_float p emin emax b)"
proof -
  consider "0 < a" | "b < 0" | "a \<le> 0" "0 \<le> b" using assms(1) by linarith
  then show ?thesis
  proof cases
    case 1
    then have "mag p emin \<bar>a\<bar> \<le> mag p emin \<bar>b\<bar>" using assms by (simp add: mag_mono)
    then show ?thesis using 1 assms(1) by (auto simp: round_float_mag)
  next
    case 2
    then have "mag p emin \<bar>b\<bar> \<le> mag p emin \<bar>a\<bar>" using assms by (simp add: mag_mono)
    then show ?thesis using 2 assms(1) by (auto simp: round_float_mag)
  next
    case 3
    have "a < 0 \<Longrightarrow> 0 \<le> mag p emin \<bar>a\<bar>" by (simp add: mag_nonneg)
    moreover have "0 < b \<Longrightarrow> 0 \<le> mag p emin \<bar>b\<bar>" by (simp add: mag_nonneg)
    ultimately show ?thesis using 3 by (auto simp: round_float_mag)
  qed
qed


lemma ilog2_eqI:
  assumes "pow2 e \<le> a" "a < pow2 (e + 1)"
  shows "ilog2 a = e"
proof -
  have a: "0 < a" using assms(1) pow2_pos [of e] by linarith
  note b = ilog2_bounds [OF a]
  have "\<not> ilog2 a + 1 \<le> e"
  proof
    assume "ilog2 a + 1 \<le> e"
    then have "pow2 (ilog2 a + 1) \<le> pow2 e" by (rule pow2_mono)
    with b assms show False by linarith
  qed
  moreover have "\<not> e + 1 \<le> ilog2 a"
  proof
    assume "e + 1 \<le> ilog2 a"
    then have "pow2 (e + 1) \<le> pow2 (ilog2 a)" by (rule pow2_mono)
    with b assms show False by linarith
  qed
  ultimately show ?thesis by linarith
qed

text \<open>
  Rounding is exact on the values of the format: every binary32 value is a fixed point of
  \<open>round_binary32\<close>, so the cast of a \<^verbatim>\<open>float\<close> to \<^verbatim>\<open>float\<close> changes nothing.
\<close>

lemma round_half_even_of_int: "round_half_even (of_int k) = k"
  by (simp add: round_half_even_def)

lemma round_float_exact:
  assumes "0 < n" "emin \<le> ilog2 (of_nat n * pow2 k) \<longrightarrow> k = ilog2 (of_nat n * pow2 k) - (int p - 1)"
    "ilog2 (of_nat n * pow2 k) < emin \<longrightarrow> k = emin - (int p - 1)"
    "of_nat n * pow2 k < pow2 (emax + 1)"
  shows "round_float p emin emax (of_nat n * pow2 k) = Fin (of_nat n * pow2 k)"
    and "round_float p emin emax (- (of_nat n * pow2 k)) = Fin (- (of_nat n * pow2 k))"
proof -
  define a :: rat where "a = of_nat n * pow2 k"
  have a: "0 < a" using assms(1) pow2_pos [of k] by (simp add: a_def)
  have u: "max (ilog2 a) emin - (int p - 1) = k"
    using assms(2,3) by (auto simp: a_def max_def)
  have "a / pow2 k = of_int (int n)" using pow2_pos [of k] by (simp add: a_def)
  then have r: "of_int (round_half_even (a / pow2 k)) * pow2 k = a"
    by (simp only: round_half_even_of_int) (simp add: a_def)
  show "round_float p emin emax (of_nat n * pow2 k) = Fin (of_nat n * pow2 k)"
    using a assms(4) r unfolding a_def [symmetric] by (simp add: round_float_def Let_def u)
  show "round_float p emin emax (- (of_nat n * pow2 k)) = Fin (- (of_nat n * pow2 k))"
    using a assms(4) r unfolding a_def [symmetric] by (simp add: round_float_def Let_def u)
qed


lemma pow2_less_imp: "pow2 a < pow2 b \<Longrightarrow> a < b"
  using pow2_mono [of b a] by (cases "a < b") auto

lemma binary32_normal_ilog2:
  assumes "m < 2 ^ 23"
  shows "ilog2 (of_nat (2 ^ 23 + m) * pow2 (int e - 150)) = int e - 127"
proof -
  define a :: rat where "a = of_nat (2 ^ 23 + m) * pow2 (int e - 150)"
  have p: "0 < pow2 (int e - 150)" by (rule pow2_pos)
  have lo: "pow2 (int e - 127) \<le> a"
  proof -
    have "pow2 (int e - 127) = pow2 23 * pow2 (int e - 150)"
      unfolding pow2_add [symmetric] by simp
    also have "\<dots> = of_nat (2 ^ 23) * pow2 (int e - 150)" by (simp add: pow2_def)
    also have "\<dots> \<le> a" unfolding a_def using p
      by (intro mult_right_mono) (simp_all del: of_nat_add of_nat_power of_nat_numeral add: of_nat_le_iff)
    finally show ?thesis .
  qed
  have hi: "a < pow2 (int e - 127 + 1)"
  proof -
    have "a < of_nat (2 ^ 24) * pow2 (int e - 150)" unfolding a_def using p assms
      by (intro mult_strict_right_mono) (simp_all del: of_nat_add of_nat_power of_nat_numeral add: of_nat_less_iff)
    also have "\<dots> = pow2 24 * pow2 (int e - 150)" by (simp add: pow2_def)
    also have "\<dots> = pow2 (int e - 127 + 1)" unfolding pow2_add [symmetric] by simp
    finally show ?thesis .
  qed
  show ?thesis using lo hi unfolding a_def by (rule ilog2_eqI)
qed

lemma round_binary32_normal:
  assumes "0 < e" "e < 255" "m < 2 ^ 23"
  shows "round_binary32 (of_nat (2 ^ 23 + m) * pow2 (int e - 150)) =
      Fin (of_nat (2 ^ 23 + m) * pow2 (int e - 150))"
    and "round_binary32 (- (of_nat (2 ^ 23 + m) * pow2 (int e - 150))) =
      Fin (- (of_nat (2 ^ 23 + m) * pow2 (int e - 150)))"
proof -
  define a :: rat where "a = of_nat (2 ^ 23 + m) * pow2 (int e - 150)"
  have "0 < a" unfolding a_def using pow2_pos [of "int e - 150"]
    by (intro mult_pos_pos) (simp_all del: of_nat_add of_nat_power of_nat_numeral)
  have il: "ilog2 a = int e - 127"
    unfolding a_def using assms(3) by (rule binary32_normal_ilog2)
  have hi: "a < pow2 (int e - 127 + 1)"
    using ilog2_bounds [OF \<open>0 < a\<close>] by (simp add: il)
  have top: "a < pow2 (127 + 1)"
  proof -
    have "pow2 (int e - 127 + 1) \<le> pow2 (127 + 1)" using assms(2) by (intro pow2_mono) simp
    with hi show ?thesis by linarith
  qed
  have n: "0 < 2 ^ 23 + m" by simp
  show "round_binary32 (of_nat (2 ^ 23 + m) * pow2 (int e - 150)) =
      Fin (of_nat (2 ^ 23 + m) * pow2 (int e - 150))"
    unfolding round_binary32_def
    using assms(1) il top by (intro round_float_exact(1) [OF n]) (simp_all add: a_def)
  show "round_binary32 (- (of_nat (2 ^ 23 + m) * pow2 (int e - 150))) =
      Fin (- (of_nat (2 ^ 23 + m) * pow2 (int e - 150)))"
    unfolding round_binary32_def
    using assms(1) il top by (intro round_float_exact(2) [OF n]) (simp_all add: a_def)
qed

lemma round_binary32_subnormal:
  assumes "m < 2 ^ 23"
  shows "round_binary32 (of_nat m * pow2 (- 149)) = Fin (of_nat m * pow2 (- 149))"
    and "round_binary32 (- (of_nat m * pow2 (- 149))) = Fin (- (of_nat m * pow2 (- 149)))"
proof -
  define a :: rat where "a = of_nat m * pow2 (- 149)"
  have p: "0 < pow2 (- 149)" by (rule pow2_pos)
  have hi: "a < pow2 (- 126)"
  proof -
    have "a < of_nat (2 ^ 23) * pow2 (- 149)" unfolding a_def using p assms
      by (intro mult_strict_right_mono) (simp_all del: of_nat_add of_nat_power of_nat_numeral add: of_nat_less_iff)
    also have "\<dots> = pow2 23 * pow2 (- 149)" by (simp add: pow2_def)
    also have "\<dots> = pow2 (- 126)" unfolding pow2_add [symmetric] by simp
    finally show ?thesis .
  qed
  have il: "ilog2 a < - 126" if "0 < m"
  proof -
    have "0 < a" using that p by (simp add: a_def)
    then have "pow2 (ilog2 a) \<le> a" using ilog2_bounds by blast
    with hi have "pow2 (ilog2 a) < pow2 (- 126)" by linarith
    then show ?thesis by (rule pow2_less_imp)
  qed
  have top: "a < pow2 (127 + 1)"
  proof -
    have "pow2 (- 126) \<le> pow2 (127 + 1)" by (intro pow2_mono) simp
    with hi show ?thesis by linarith
  qed
  show "round_binary32 (of_nat m * pow2 (- 149)) = Fin (of_nat m * pow2 (- 149))"
  proof (cases "m = 0")
    case True
    then show ?thesis by (simp add: round_binary32_def round_float_def)
  next
    case False
    then have m: "0 < m" by simp
    show ?thesis unfolding round_binary32_def
      using il [OF m] top by (intro round_float_exact(1) [OF m]) (simp_all add: a_def)
  qed
  show "round_binary32 (- (of_nat m * pow2 (- 149))) = Fin (- (of_nat m * pow2 (- 149)))"
  proof (cases "m = 0")
    case True
    then show ?thesis by (simp add: round_binary32_def round_float_def)
  next
    case False
    then have m: "0 < m" by simp
    show ?thesis unfolding round_binary32_def
      using il [OF m] top by (intro round_float_exact(2) [OF m]) (simp_all add: a_def)
  qed
qed

lemma valof_fields:
  "unat (drop_bit 23 w AND 0xFF :: 32 word) < 256" "unat (w AND 0x7FFFFF :: 32 word) < 2 ^ 23"
proof -
  have "drop_bit 23 w AND 0xFF \<le> (0xFF :: 32 word)" by (rule word_and_le1)
  then show "unat (drop_bit 23 w AND 0xFF :: 32 word) < 256" by (simp add: word_le_nat_alt)
  have "w AND 0x7FFFFF \<le> (0x7FFFFF :: 32 word)" by (rule word_and_le1)
  then show "unat (w AND 0x7FFFFF :: 32 word) < 2 ^ 23" by (simp add: word_le_nat_alt)
qed

lemma f_cast_float_valof: "f_cast_float (valof w) = valof w"
proof -
  define e where "e = unat (drop_bit 23 w AND 0xFF)"
  define m where "m = unat (w AND 0x7FFFFF)"
  have e: "e < 256" and m: "m < 2 ^ 23" using valof_fields [of w] by (simp_all add: e_def m_def)
  consider "e = 255" | "e = 0" | "0 < e" "e < 255" using e by linarith
  then show ?thesis
  proof cases
    case 1
    then show ?thesis by (simp add: valof_def Let_def e_def [symmetric])
  next
    case 2
    then show ?thesis
      using round_binary32_subnormal [OF m]
      by (simp add: valof_def Let_def e_def [symmetric] m_def [symmetric])
  next
    case 3
    have neg: "(- 8388608 - rat_of_nat m) * z = - ((8388608 + rat_of_nat m) * z)" for z
      by (simp add: algebra_simps)
    from 3 show ?thesis
      using round_binary32_normal [OF 3 m]
      by (simp add: valof_def Let_def e_def [symmetric] m_def [symmetric] neg)
  qed
qed

text \<open>
  The only bit pattern with the value 1.0 is \<open>0x3F800000\<close>: comparing a float with
  \<^verbatim>\<open>1.0f\<close> is comparing its bits with this pattern.
\<close>

lemma word32_fields:
  "(w :: 32 word) =
     push_bit 31 (of_bool (bit w 31)) OR push_bit 23 (drop_bit 23 w AND 0xFF) OR (w AND 0x7FFFFF)"
proof -
  have m8: "(0xFF :: 32 word) = mask 8" and m23: "(0x7FFFFF :: 32 word) = mask 23"
    by (simp_all add: mask_eq_exp_minus_1)
  have "w = push_bit 31 (of_bool (bit w 31)) OR push_bit 23 (take_bit 8 (drop_bit 23 w)) OR
      take_bit 23 w"
  proof (rule bit_word_eqI)
    fix n :: nat
    assume "n < LENGTH(32)"
    then consider "n < 23" | "23 \<le> n" "n < 31" | "n = 31" by fastforce
    then show "bit w n =
      bit (push_bit 31 (of_bool (bit w 31)) OR push_bit 23 (take_bit 8 (drop_bit 23 w)) OR
           take_bit 23 w) n"
      by cases (auto simp: bit_simps)
  qed
  then show ?thesis by (simp only: m8 m23 take_bit_eq_mask)
qed

lemma valof_eq_one_iff: "valof w = Fin 1 \<longleftrightarrow> w = 0x3F800000"
proof
  assume v: "valof w = Fin 1"
  define e where "e = unat (drop_bit 23 w AND 0xFF)"
  define m where "m = unat (w AND 0x7FFFFF)"
  have m: "m < 2 ^ 23" using valof_fields [of w] by (simp add: m_def)
  have p: "0 < pow2 k" for k by (rule pow2_pos)
  have e255: "e \<noteq> 255" using v by (auto simp: valof_def Let_def e_def [symmetric] split: if_splits)
  have e0: "e \<noteq> 0"
  proof
    assume "e = 0"
    with v have eq: "(if bit w 31 then - 1 else 1) * of_nat m * pow2 (- 149) = (1 :: rat)"
      by (simp add: valof_def Let_def e_def [symmetric] m_def [symmetric])
    have "of_nat m * pow2 (- 149) < of_nat (2 ^ 23) * pow2 (- 149)" using m p [of "- 149"]
      by (intro mult_strict_right_mono) (simp_all del: of_nat_add of_nat_power of_nat_numeral add: of_nat_less_iff)
    also have "\<dots> = pow2 23 * pow2 (- 149)" by (simp add: pow2_def)
    also have "\<dots> = pow2 (- 126)" unfolding pow2_add [symmetric] by simp
    also have "\<dots> \<le> pow2 0" by (intro pow2_mono) simp
    finally have lt: "of_nat m * pow2 (- 149) < 1" by (simp add: pow2_def)
    have "0 \<le> of_nat m * pow2 (- 149)" using p [of "- 149"] by simp
    with lt eq show False by (auto split: if_splits)
  qed
  define a :: rat where "a = (8388608 + of_nat m) * pow2 (int e - 150)"
  have a: "0 < a" unfolding a_def using p [of "int e - 150"]
    by (intro mult_pos_pos) simp_all
  from v e255 e0 have eq: "(if bit w 31 then - 1 else 1) * a = 1"
    by (simp add: valof_def Let_def e_def [symmetric] m_def [symmetric] a_def mult.assoc)
  with a have s: "\<not> bit w 31" and a1: "a = 1" by (auto split: if_splits)
  have "ilog2 a = int e - 127"
    using binary32_normal_ilog2 [OF m, of e] by (simp add: a_def)
  moreover have "ilog2 1 = 0" by (rule ilog2_eqI) (simp_all add: pow2_def)
  ultimately have e: "e = 127" using a1 by simp
  have "(8388608 + of_nat m) * pow2 (- 23) = (1 :: rat)" using a1 e by (simp add: a_def)
  then have "(of_nat m :: rat) = 0"
    by (simp add: pow2_def field_simps)
  then have m0: "m = 0" by simp
  have "drop_bit 23 w AND 0xFF = 127" using e by (simp add: e_def word_unat_eq_iff)
  moreover have "w AND 0x7FFFFF = 0" using m0 by (simp add: m_def unat_eq_zero)
  ultimately show "w = 0x3F800000"
    using s by (subst word32_fields [of w]) simp
next
  assume "w = 0x3F800000"
  then show "valof w = Fin 1" by (simp add: valof_def pow2_def)
qed

section \<open>Properties of the parameter store\<close>

lemma ucast_bytes_word32:
  "ucast (ucast w :: byte) OR push_bit 8 (ucast (ucast (drop_bit 8 w) :: byte)) OR
   push_bit 16 (ucast (ucast (drop_bit 16 w) :: byte)) OR
   push_bit 24 (ucast (ucast (drop_bit 24 w) :: byte)) = (w :: float_bits)"
proof (rule bit_word_eqI)
  fix n :: nat
  assume "n < LENGTH(32)"
  then consider "n < 8" | "8 \<le> n" "n < 16" | "16 \<le> n" "n < 24" | "24 \<le> n" "n < 32"
    by fastforce
  then show "bit (ucast (ucast w :: byte) OR push_bit 8 (ucast (ucast (drop_bit 8 w) :: byte)) OR
   push_bit 16 (ucast (ucast (drop_bit 16 w) :: byte)) OR
   push_bit 24 (ucast (ucast (drop_bit 24 w) :: byte)) :: float_bits) n = bit w n"
    by cases (auto simp: bit_simps)
qed

lemma valof_one: "valof 0x3F800000 = Fin 1"
  by (simp add: valof_def pow2_def)

lemma f_eq_Fin_iff: "f_eq v (Fin q) = (v = Fin q)"
  by (cases v) auto

lemma strictly_positive_one: "strictly_positive 0x3F800000"
  by (simp add: strictly_positive_def f_gt_def valof_one)

lemma config_positive_new: "config_positive dsp_speedy_config_new"
  by (simp add: config_positive_def dsp_speedy_config_new_def kDefaultSpeed_def kDefaultPitch_def
      kDefaultRate_def kDefaultVolume_def kDefaultNonlinearFactor_def strictly_positive_one)

lemma parse_make_preset: "parse_preset (make_preset r) c = r"
  by (simp add: parse_preset_def make_preset_def preset_size_def float_bytes_def floats_at_def
      ucast_bytes_word32 byte_bool_def bool_byte_def Let_def)

lemma make_preset_owner: "owner (make_preset r) = g_dsp_speedy_guid"
  by (simp add: make_preset_def)

lemma make_preset_size: "length (preset_data (make_preset r)) = preset_size"
  by (simp add: make_preset_def float_bytes_def preset_size_def)

text \<open>
  Claim C5 (serialization round trip). For every parameter record \<open>r\<close>, the preset made
  from \<open>r\<close> carries the component's GUID and the fixed 21 bytes, and parsing it gives
  back \<open>r\<close>, whatever record the parser started from: every field is restored bit for bit.
\<close>

theorem serialization_round_trip:
  "owner (make_preset r) = g_dsp_speedy_guid \<and> length (preset_data (make_preset r)) = preset_size \<and>
   parse_preset (make_preset r) c = r"
  by (simp add: parse_make_preset make_preset_owner make_preset_size)

text \<open>
  Claim C6 (defaults on corruption). A preset whose owner is not the component's GUID, or
  whose data is shorter than the fixed size of five floats and one bool (21 bytes), parses
  to the default record. The parser is a total function with no failing branch.
\<close>

theorem defaults_on_corruption:
  "owner p \<noteq> g_dsp_speedy_guid \<or> length (preset_data p) < preset_size \<Longrightarrow>
   parse_preset p c = dsp_speedy_config_new"
  by (auto simp: parse_preset_def reset_def Let_def)

text \<open>
  The hypothesis of C6 at two concrete presets: a well-sized blob with a foreign owner, and
  a four-byte blob with the right owner.
\<close>

theorem defaults_on_corruption_witness:
  "parse_preset
     \<lparr>owner = g_dsp_speedy_guid\<lparr>Data1 := 0\<rparr>,
      preset_data = preset_data (make_preset dsp_speedy_config_new)\<rparr>
     (dsp_speedy_config_new\<lparr>speed := 0x40000000\<rparr>) = dsp_speedy_config_new \<and>
   parse_preset \<lparr>owner = g_dsp_speedy_guid, preset_data = [0, 0, 0x80, 0x3F]\<rparr>
     (dsp_speedy_config_new\<lparr>speed := 0x40000000\<rparr>) = dsp_speedy_config_new"
  using
    defaults_on_corruption [of
      "\<lparr>owner = g_dsp_speedy_guid\<lparr>Data1 := 0\<rparr>,
        preset_data = preset_data (make_preset dsp_speedy_config_new)\<rparr>"
      "dsp_speedy_config_new\<lparr>speed := 0x40000000\<rparr>"]
    defaults_on_corruption [of
      "\<lparr>owner = g_dsp_speedy_guid, preset_data = [0, 0, 0x80, 0x3F]\<rparr>"
      "dsp_speedy_config_new\<lparr>speed := 0x40000000\<rparr>"]
  by (simp add: g_dsp_speedy_guid_def preset_size_def)

text \<open>
  Claim C8. \<open>is_default\<close> holds exactly when speed, pitch, rate and volume have the
  value 1.0, which is to say the bit pattern of \<^verbatim>\<open>1.0f\<close>, and the nonlinear flag is
  off. The nonlinear factor takes no part: changing it never changes the answer, and the
  default record with any other factor is still default.
\<close>

theorem is_default_iff:
  "is_default c =
     (valof (speed c) = Fin 1 \<and> valof (pitch c) = Fin 1 \<and> valof (rate c) = Fin 1 \<and>
      valof (volume c) = Fin 1 \<and> nonlinear_enabled c = False) \<and>
   is_default c =
     (speed c = 0x3F800000 \<and> pitch c = 0x3F800000 \<and> rate c = 0x3F800000 \<and>
      volume c = 0x3F800000 \<and> nonlinear_enabled c = False) \<and>
   is_default (c\<lparr>nonlinear_factor := f\<rparr>) = is_default c \<and>
   is_default (dsp_speedy_config_new\<lparr>nonlinear_factor := f\<rparr>)"
  by (simp add: is_default_def dsp_speedy_config_new_def kDefaultSpeed_def kDefaultPitch_def
      kDefaultRate_def kDefaultVolume_def kDefaultNonlinear_def valof_one f_eq_Fin_iff
      valof_eq_one_iff)

text \<open>
  Claim C9 fails as stated for deserialization: a blob of the right owner and the right size
  whose floats are 0.0 parses to a record whose multipliers are 0.0, not strictly positive.
\<close>

theorem parse_preset_not_positive_counterexample:
  "\<not> config_positive (parse_preset
        \<lparr>owner = g_dsp_speedy_guid,
         preset_data = [0, 0, 0, 0,  0, 0, 0, 0,  0, 0, 0, 0,  0, 0, 0, 0,  0, 0, 0, 0,  0]\<rparr>
        dsp_speedy_config_new)"
  by (simp add: parse_preset_def preset_size_def Let_def floats_at_def config_positive_def
      strictly_positive_def f_gt_def valof_def pow2_def)

text \<open>
  Claim C9, amended. Construction and reset give a record whose five multipliers are
  strictly positive. Parsing a preset with the right owner and at least 21 bytes copies the
  five floats without a range check, so the result is strictly positive exactly when the
  five floats stored in the blob are; this is so for every preset made from a record that
  satisfies the invariant.
\<close>

theorem positive_invariant:
  "config_positive dsp_speedy_config_new \<and> config_positive (reset c) \<and>
   (owner p = g_dsp_speedy_guid \<and> preset_size \<le> length (preset_data p) \<longrightarrow>
      config_positive (parse_preset p c) =
        (\<forall>k \<in> {0, 1, 2, 3, 4}. strictly_positive (floats_at (preset_data p) k))) \<and>
   (config_positive r \<longrightarrow> config_positive (parse_preset (make_preset r) c))"
proof -
  have "config_positive (parse_preset p c) =
        (\<forall>k \<in> {0, 1, 2, 3, 4}. strictly_positive (floats_at (preset_data p) k))"
    if "owner p = g_dsp_speedy_guid" "preset_size \<le> length (preset_data p)"
    using that by (simp add: parse_preset_def Let_def config_positive_def)
  then show ?thesis
    by (simp add: config_positive_new reset_def parse_make_preset)
qed

text \<open>
  The hypotheses of the amended C9 at the preset made from the default record.
\<close>

theorem positive_invariant_witness:
  "owner (make_preset dsp_speedy_config_new) = g_dsp_speedy_guid \<and>
   preset_size \<le> length (preset_data (make_preset dsp_speedy_config_new)) \<and>
   config_positive dsp_speedy_config_new \<and>
   config_positive (reset (dsp_speedy_config_new\<lparr>speed := 0\<rparr>)) \<and>
   config_positive (parse_preset (make_preset dsp_speedy_config_new)
     (dsp_speedy_config_new\<lparr>speed := 0\<rparr>)) \<and>
   strictly_positive (floats_at (preset_data (make_preset dsp_speedy_config_new)) 0) \<and>
   strictly_positive (floats_at (preset_data (make_preset dsp_speedy_config_new)) 4)"
  using positive_invariant [of "dsp_speedy_config_new\<lparr>speed := 0\<rparr>"
      "make_preset dsp_speedy_config_new" dsp_speedy_config_new]
  by (simp add: make_preset_owner make_preset_size parse_make_preset config_positive_new)

section \<open>Properties of the sample codec\<close>

text \<open>Evaluating the rounding at the values the claims turn on.\<close>

lemma floor_rat_numeral:
  "\<lfloor>numeral a / numeral b :: rat\<rfloor> = numeral a div numeral b"
  using floor_divide_of_int_eq [of "numeral a" "numeral b", where ?'a = rat] by simp

lemma floor_rat_neg_numeral:
  "\<lfloor>- (numeral a / numeral b) :: rat\<rfloor> = - numeral a div numeral b"
  using floor_divide_of_int_eq [of "- numeral a" "numeral b", where ?'a = rat] by simp

lemma ceiling_rat_neg_numeral:
  "\<lceil>- (numeral a / numeral b) :: rat\<rceil> = - (numeral a div numeral b)"
  by (simp add: ceiling_def floor_rat_numeral)

lemmas round_binary32_eval =
  round_binary32_def round_float_def pow2_def round_half_even_def Let_def
  floor_rat_numeral floor_rat_neg_numeral

lemma ilog2_1: "ilog2 1 = 0"
  by (rule ilog2_eqI) (simp_all add: pow2_def)

lemma ilog2_32767: "ilog2 32767 = 14"
  by (rule ilog2_eqI) (simp_all add: pow2_def)

lemma round_binary32_1: "round_binary32 1 = Fin 1"
  by (simp add: round_binary32_eval ilog2_1)

lemma round_binary32_m1: "round_binary32 (- 1) = Fin (- 1)"
  by (simp add: round_binary32_eval ilog2_1)

lemma round_binary32_32767: "round_binary32 32767 = Fin 32767"
  by (simp add: round_binary32_eval ilog2_32767)

lemma round_binary32_m32767: "round_binary32 (- 32767) = Fin (- 32767)"
  by (simp add: round_binary32_eval ilog2_32767)

text \<open>
  The sample -32768/32767 rounds to the float -(1 + 2^-15), whose product with 32767.0
  rounds to -32768.0.
\<close>

lemma ilog2_threshold: "ilog2 (32768 / 32767) = 0"
  by (rule ilog2_eqI) (simp_all add: pow2_def)

lemma round_binary32_threshold:
  "round_binary32 (- (32768 / 32767)) = Fin (- (8388864 / 8388608))"
  by (simp add: round_binary32_eval ilog2_threshold)

lemma ilog2_threshold_product: "ilog2 (8388864 / 8388608 * 32767) = 14"
  by (rule ilog2_eqI) (simp_all add: pow2_def)

lemma round_binary32_threshold_product:
  "round_binary32 (- (8388864 / 8388608) * 32767) = Fin (- 32768)"
  using ilog2_threshold_product by (simp add: round_binary32_eval)

text \<open>
  The float -(1 + 2^-16) is a value of binary32; its product with 32767.0 rounds to
  -32767.5.
\<close>

lemma valof_BF800080: "valof 0xBF800080 = Fin (- (65537 / 65536))"
  by (simp add: valof_def pow2_def)

lemma ilog2_below_one: "ilog2 (65537 / 65536) = 0"
  by (rule ilog2_eqI) (simp_all add: pow2_def)

lemma ilog2_below_one_product: "ilog2 (65537 / 65536 * 32767) = 14"
  by (rule ilog2_eqI) (simp_all add: pow2_def)

lemma round_binary32_below_one:
  "round_binary32 (- (65537 / 65536)) = Fin (- (65537 / 65536))"
  by (simp add: round_binary32_eval ilog2_below_one)

lemma round_binary32_below_one_product:
  "round_binary32 (- (65537 / 65536) * 32767) = Fin (- (65535 / 2))"
  using ilog2_below_one_product by (simp add: round_binary32_eval)

text \<open>The conversion in general.\<close>

lemma round_binary32_mono: "a \<le> b \<Longrightarrow> f_le (round_binary32 a) (round_binary32 b)"
  by (simp add: round_binary32_def round_float_mono)

lemma sint_short_of_int:
  "- 32768 \<le> k \<Longrightarrow> k \<le> 32767 \<Longrightarrow> sint (word_of_int k :: short) = k"
  by (simp add: sint_sbintrunc' signed_take_bit_int_eq_self)

lemma rat_trunc_clamp:
  assumes "- 32768 \<le> c" "c \<le> 32767"
  shows "- 32768 \<le> rat_trunc c \<and> rat_trunc c \<le> 32767"
proof -
  have "\<lfloor>c\<rfloor> \<le> 32767" using assms(2) by (simp add: floor_le_iff)
  moreover have "- 32768 \<le> \<lceil>c\<rceil>" using assms(1) by (simp add: le_ceiling_iff)
  moreover have "0 \<le> c \<Longrightarrow> 0 \<le> \<lfloor>c\<rfloor>" by simp
  moreover have "c < 0 \<Longrightarrow> \<lceil>c\<rceil> \<le> 0" by (simp add: ceiling_le_iff)
  ultimately show ?thesis by (auto simp: rat_trunc_def)
qed

lemma to_fixed_Fin:
  assumes "f_mul (f_cast_float x) (Fin 32767) = Fin r"
  shows "sint (to_fixed x) = rat_trunc (max (- 32768) (min 32767 r))"
proof -
  have "to_fixed x = word_of_int (rat_trunc (max (- 32768) (min 32767 r)))"
    using assms by (auto simp: to_fixed_def f_gt_def Let_def max_def min_def)
  moreover have "- 32768 \<le> rat_trunc (max (- 32768) (min 32767 r)) \<and>
      rat_trunc (max (- 32768) (min 32767 r)) \<le> 32767"
    by (rule rat_trunc_clamp) simp_all
  ultimately show ?thesis by (simp add: sint_short_of_int)
qed

lemma to_fixed_PInf:
  "f_mul (f_cast_float x) (Fin 32767) = PInf \<Longrightarrow> sint (to_fixed x) = 32767"
  by (simp add: to_fixed_def f_gt_def rat_trunc_def)

lemma to_fixed_NInf:
  "f_mul (f_cast_float x) (Fin 32767) = NInf \<Longrightarrow> sint (to_fixed x) = - 32768"
  by (simp add: to_fixed_def f_gt_def rat_trunc_def)

lemma to_fixed_NaN:
  "f_mul (f_cast_float x) (Fin 32767) = NaN \<Longrightarrow> sint (to_fixed x) = 0"
  by (simp add: to_fixed_def f_gt_def)

lemma to_fixed_eq_spec: "sint (to_fixed x) = to_fixed_spec x"
  by (cases "f_mul (f_cast_float x) (Fin 32767)")
    (simp_all add: to_fixed_spec_def to_fixed_Fin to_fixed_PInf to_fixed_NInf to_fixed_NaN)

lemma f_le_Fin_left: "f_le (Fin a) v \<Longrightarrow> v = PInf \<or> (\<exists>r. v = Fin r \<and> a \<le> r)"
  by (cases v) simp_all

lemma f_le_Fin_right: "f_le v (Fin b) \<Longrightarrow> v = NInf \<or> (\<exists>r. v = Fin r \<and> r \<le> b)"
  by (cases v) simp_all

lemma product_above:
  assumes "f_gt x (Fin 1)"
  shows "f_mul (f_cast_float x) (Fin 32767) = PInf \<or>
    (\<exists>r. f_mul (f_cast_float x) (Fin 32767) = Fin r \<and> 32767 \<le> r)"
proof (cases x)
  case (Fin q)
  with assms have "1 \<le> q" by (simp add: f_gt_def)
  then have "f_le (Fin 1) (round_binary32 q)"
    using round_binary32_mono [of 1 q] by (simp add: round_binary32_1)
  then consider "round_binary32 q = PInf" | y where "round_binary32 q = Fin y" "1 \<le> y"
    using f_le_Fin_left by blast
  then show ?thesis
  proof cases
    case 1
    then show ?thesis using Fin by simp
  next
    case 2
    then have "32767 \<le> y * 32767" by simp
    then have "f_le (Fin 32767) (round_binary32 (y * 32767))"
      using round_binary32_mono [of 32767 "y * 32767"] by (simp add: round_binary32_32767)
    then show ?thesis using Fin 2 f_le_Fin_left by simp
  qed
qed (use assms in \<open>simp_all add: f_gt_def\<close>)

lemma product_below:
  assumes "f_le x (Fin (- c))" "round_binary32 (- c) = Fin (- c')"
    "round_binary32 (- c' * 32767) = Fin (- d)" "0 \<le> c'"
  shows "f_mul (f_cast_float x) (Fin 32767) = NInf \<or>
    (\<exists>r. f_mul (f_cast_float x) (Fin 32767) = Fin r \<and> r \<le> - d)"
proof (cases x)
  case (Fin q)
  with assms have "q \<le> - c" by simp
  then have "f_le (round_binary32 q) (Fin (- c'))"
    using round_binary32_mono [of q "- c"] by (simp add: assms(2))
  then consider "round_binary32 q = NInf" | y where "round_binary32 q = Fin y" "y \<le> - c'"
    using f_le_Fin_right by blast
  then show ?thesis
  proof cases
    case 1
    then show ?thesis using Fin by simp
  next
    case 2
    then have "y * 32767 \<le> - c' * 32767" by simp
    then have "f_le (round_binary32 (y * 32767)) (Fin (- d))"
      using round_binary32_mono [of "y * 32767" "- c' * 32767"] assms(3) by simp
    then show ?thesis using Fin 2 f_le_Fin_right by simp
  qed
qed (use assms in simp_all)

lemma f_lt_imp_le: "f_lt x (Fin a) \<Longrightarrow> f_le x (Fin a)"
  by (cases x) simp_all

text \<open>
  Claim C7 fails as stated below the range: the binary32 value -(1 + 2^-16), bit pattern
  \<open>0xBF800080\<close>, is less than -1.0 and converts to -32767, not to -32768. Its product
  with 32767.0 rounds to -32767.5, which no clamp changes and truncation takes to -32767.
\<close>

theorem to_fixed_below_range_counterexample:
  "f_lt (valof 0xBF800080) (Fin (- 1)) \<and> sint (to_fixed (valof 0xBF800080)) = - 32767"
  using round_binary32_below_one_product
  by (simp add: valof_BF800080 to_fixed_def round_binary32_below_one f_gt_def rat_trunc_def
      ceiling_rat_neg_numeral)

text \<open>
  Claim C7, amended. The 16-bit result of the conversion is the product with 32767.0,
  clamped to [-32768.0, 32767.0] and truncated, as a mathematical integer: it never wraps.
  Every sample above 1.0 converts to exactly 32767. Every sample below -1.0 converts to
  -32768 or -32767; it is -32768 for every sample at or below -32768/32767.
\<close>

theorem to_fixed_saturation:
  "sint (to_fixed x) = to_fixed_spec x \<and>
   (f_gt x (Fin 1) \<longrightarrow> sint (to_fixed x) = 32767) \<and>
   (f_lt x (Fin (- 1)) \<longrightarrow> sint (to_fixed x) = - 32768 \<or> sint (to_fixed x) = - 32767) \<and>
   (f_le x (Fin (- (32768 / 32767))) \<longrightarrow> sint (to_fixed x) = - 32768)"
proof (intro conjI impI)
  show "sint (to_fixed x) = to_fixed_spec x" by (rule to_fixed_eq_spec)
next
  assume "f_gt x (Fin 1)"
  from product_above [OF this] show "sint (to_fixed x) = 32767"
    by (auto simp: to_fixed_PInf to_fixed_Fin rat_trunc_def min_def max_def)
next
  assume "f_lt x (Fin (- 1))"
  then have "f_le x (Fin (- 1))" by (rule f_lt_imp_le)
  from product_below [OF this, of 1 32767]
  consider "f_mul (f_cast_float x) (Fin 32767) = NInf"
    | r where "f_mul (f_cast_float x) (Fin 32767) = Fin r" "r \<le> - 32767"
    by (auto simp: round_binary32_m1 round_binary32_m32767)
  then show "sint (to_fixed x) = - 32768 \<or> sint (to_fixed x) = - 32767"
  proof cases
    case 1
    then show ?thesis by (simp add: to_fixed_NInf)
  next
    case 2
    define c where "c = max (- 32768) (min 32767 r)"
    have c: "- 32768 \<le> c" "c \<le> - 32767" using 2(2) by (simp_all add: c_def)
    then have "- 32768 \<le> \<lceil>c\<rceil>" "\<lceil>c\<rceil> \<le> - 32767"
      by (simp_all add: le_ceiling_iff ceiling_le_iff)
    then have "\<lceil>c\<rceil> = - 32768 \<or> \<lceil>c\<rceil> = - 32767" by linarith
    moreover have "rat_trunc c = \<lceil>c\<rceil>" using c by (simp add: rat_trunc_def)
    ultimately have "rat_trunc c = - 32768 \<or> rat_trunc c = - 32767" by simp
    then show ?thesis using 2(1) by (simp add: to_fixed_Fin c_def)
  qed
next
  assume "f_le x (Fin (- (32768 / 32767)))"
  from product_below [OF this, of "8388864 / 8388608" 32768]
  consider "f_mul (f_cast_float x) (Fin 32767) = NInf"
    | r where "f_mul (f_cast_float x) (Fin 32767) = Fin r" "r \<le> - 32768"
    using round_binary32_threshold round_binary32_threshold_product by auto
  then show "sint (to_fixed x) = - 32768"
  proof cases
    case 1
    then show ?thesis by (simp add: to_fixed_NInf)
  next
    case 2
    then have "max (- 32768) (min 32767 r) = - 32768" by simp
    then show ?thesis using 2(1) by (simp add: to_fixed_Fin rat_trunc_def)
  qed
qed

text \<open>The hypotheses of the amended C7 at the samples 2.0 and -2.0.\<close>

theorem to_fixed_saturation_witness:
  "f_gt (Fin 2) (Fin 1) \<and> sint (to_fixed (Fin 2)) = 32767 \<and>
   f_lt (Fin (- 2)) (Fin (- 1)) \<and> f_le (Fin (- 2)) (Fin (- (32768 / 32767))) \<and>
   sint (to_fixed (Fin (- 2))) = - 32768"
  using to_fixed_saturation [of "Fin 2"] to_fixed_saturation [of "Fin (- 2)"]
  by (simp add: f_gt_def)

section \<open>Properties of the stream adapter\<close>

text \<open>The cast of a size to \<^verbatim>\<open>int\<close> never yields more than the size.\<close>

lemma sint_le_uint: "sint (w :: 32 word) \<le> uint w"
  by (simp add: sint_uint signed_take_bit_int_less_eq_self_iff order_trans [OF _ uint_ge_0])

lemma to_int_le: "to_int n \<le> int n"
proof -
  have "sint (word_of_nat n :: 32 word) \<le> uint (word_of_nat n :: 32 word)"
    by (rule sint_le_uint)
  also have "\<dots> = int (n mod 2 ^ 32)"
    by (simp add: uint_nat unat_of_nat)
  also have "\<dots> \<le> int n"
    by simp
  finally show ?thesis by (simp add: to_int_def)
qed

text \<open>A sum or difference of two \<^verbatim>\<open>int\<close>s that fits into 32 bits does not wrap.\<close>

lemma sint_int32_bounds: "- 2147483648 \<le> sint (w :: int32)" "sint (w :: int32) < 2147483648"
  using sint_ge [of w] sint_lt [of w] by simp_all

lemma sint_diff_int32:
  "- 2147483648 \<le> sint a - sint b \<Longrightarrow> sint a - sint b < 2147483648 \<Longrightarrow>
   sint (a - b :: int32) = sint a - sint b"
  by (simp add: sint_word_ariths signed_take_bit_int_eq_self)

lemma sint_add_int32:
  "- 2147483648 \<le> sint a + sint b \<Longrightarrow> sint a + sint b < 2147483648 \<Longrightarrow>
   sint (a + b :: int32) = sint a + sint b"
  by (simp add: sint_word_ariths signed_take_bit_int_eq_self)

text \<open>
  One turn of the drain loop, and the loop with an engine that honours the contract of
  its read: it ends, \<^verbatim>\<open>total_read\<close> never wraps, and every turn but the last
  adds at least one frame without reaching \<^verbatim>\<open>max_samples\<close>.
\<close>

lemma drain_step:
  "drain eng stream chans mx (buf, t, total_read) =
     (if 0 < sint (fst (read_result eng t stream (sint (mx - total_read)))) then
        (if sint mx \<le> sint (total_read + fst (read_result eng t stream (sint (mx - total_read))))
         then Some (store_at (unat (total_read * chans))
                      (snd (read_result eng t stream (sint (mx - total_read)))) buf,
                    t @ [sonicReadShortFromStream stream (sint (mx - total_read))],
                    total_read + fst (read_result eng t stream (sint (mx - total_read))))
         else drain eng stream chans mx
                (store_at (unat (total_read * chans))
                   (snd (read_result eng t stream (sint (mx - total_read)))) buf,
                 t @ [sonicReadShortFromStream stream (sint (mx - total_read))],
                 total_read + fst (read_result eng t stream (sint (mx - total_read)))))
      else Some (store_at (unat (total_read * chans))
                   (snd (read_result eng t stream (sint (mx - total_read)))) buf,
                 t @ [sonicReadShortFromStream stream (sint (mx - total_read))], total_read))"
  by (subst drain.simps) (simp add: Let_def)

lemma drain_returns:
  assumes "read_honours_max eng"
    and "sint total_read = 0 \<or> (0 \<le> sint total_read \<and> sint total_read \<le> sint mx)"
  shows "\<exists>buf' reads total'.
     drain eng stream chans mx (buf, t, total_read) = Some (buf', t @ reads, total') \<and>
     sint total_read \<le> sint total' \<and> sint total' \<le> max (sint mx) (sint total_read) \<and>
     1 \<le> length reads \<and> int (length reads) \<le> max 1 (sint mx - sint total_read) \<and>
     (\<forall>c \<in> set reads. \<exists>m. c = sonicReadShortFromStream stream m \<and>
        m \<le> sint mx - sint total_read)"
  using assms(2)
proof (induction "nat (sint mx - sint total_read)" arbitrary: buf t total_read rule: less_induct)
  case less
  define m where "m = sint (mx - total_read)"
  define r where "r = read_result eng t stream m"
  define c0 where "c0 = sonicReadShortFromStream stream m"
  define buf1 where "buf1 = store_at (unat (total_read * chans)) (snd r) buf"
  note b = sint_int32_bounds [of mx] sint_int32_bounds [of total_read]
    sint_int32_bounds [of "fst r"]
  have m: "m = sint mx - sint total_read"
    unfolding m_def using less.prems b by (intro sint_diff_int32) auto
  have h: "sint (fst r) \<le> max m 0"
    using assms(1) by (simp add: read_honours_max_def r_def)
  show ?case
  proof (cases "0 < sint (fst r)")
    case False
    then have "drain eng stream chans mx (buf, t, total_read) = Some (buf1, t @ [c0], total_read)"
      by (subst drain_step) (simp add: m_def [symmetric] r_def [symmetric] c0_def buf1_def)
    then show ?thesis
      using m by (intro exI [of _ buf1] exI [of _ "[c0]"] exI [of _ total_read]) (simp add: c0_def)
  next
    case True
    with h have pos: "0 < m" "sint (fst r) \<le> m" by (auto simp: max_def split: if_splits)
    with m less.prems have T: "0 \<le> sint total_read" "sint total_read < sint mx" by auto
    have sum: "sint (total_read + fst r) = sint total_read + sint (fst r)"
      using pos m T True b by (intro sint_add_int32) auto
    show ?thesis
    proof (cases "sint mx \<le> sint (total_read + fst r)")
      case exit: True
      have "drain eng stream chans mx (buf, t, total_read) =
          Some (buf1, t @ [c0], total_read + fst r)"
        using True exit
        by (subst drain_step) (simp add: m_def [symmetric] r_def [symmetric] c0_def buf1_def)
      then show ?thesis
        using m sum pos True T
        by (intro exI [of _ buf1] exI [of _ "[c0]"] exI [of _ "total_read + fst r"])
          (simp add: c0_def)
    next
      case again: False
      have step: "drain eng stream chans mx (buf, t, total_read) =
          drain eng stream chans mx (buf1, t @ [c0], total_read + fst r)"
        using True again
        by (subst drain_step) (simp add: m_def [symmetric] r_def [symmetric] c0_def buf1_def)
      have "nat (sint mx - sint (total_read + fst r)) < nat (sint mx - sint total_read)"
        using sum True again by simp
      moreover have "sint (total_read + fst r) = 0 \<or>
          (0 \<le> sint (total_read + fst r) \<and> sint (total_read + fst r) \<le> sint mx)"
        using sum True again T by simp
      ultimately obtain buf' reads total' where ih:
        "drain eng stream chans mx (buf1, t @ [c0], total_read + fst r) =
           Some (buf', (t @ [c0]) @ reads, total')"
        "sint (total_read + fst r) \<le> sint total'"
        "sint total' \<le> max (sint mx) (sint (total_read + fst r))"
        "int (length reads) \<le> max 1 (sint mx - sint (total_read + fst r))"
        "\<forall>c \<in> set reads. \<exists>m. c = sonicReadShortFromStream stream m \<and>
           m \<le> sint mx - sint (total_read + fst r)"
        using less.hyps [of "total_read + fst r" buf1 "t @ [c0]"] by blast
      have "drain eng stream chans mx (buf, t, total_read) = Some (buf', t @ (c0 # reads), total')"
        using step ih(1) by simp
      moreover have "sint total_read \<le> sint total'"
        using ih(2) sum True by simp
      moreover have "sint total' \<le> max (sint mx) (sint total_read)"
        using ih(3) sum again by simp
      moreover have "int (length (c0 # reads)) \<le> max 1 (sint mx - sint total_read)"
        using ih(4) sum True again by simp
      moreover have "\<forall>c \<in> set (c0 # reads). \<exists>m. c = sonicReadShortFromStream stream m \<and>
          m \<le> sint mx - sint total_read"
        using ih(5) sum True m by (auto simp: c0_def)
      ultimately show ?thesis
        by (intro exI [of _ buf'] exI [of _ "c0 # reads"] exI [of _ total']) simp
    qed
  qed
qed

text \<open>Whatever the engine answers, a drain loop that ends has made only reads.\<close>

lemma drain_reads:
  assumes "drain eng stream chans mx st = Some y"
  shows "\<exists>reads. fst (snd y) = fst (snd st) @ reads \<and>
     (\<forall>c \<in> set reads. \<exists>m. c = sonicReadShortFromStream stream m)"
  using assms
proof (induction rule: drain.raw_induct [rotated 1, consumes 1])
  case (1 drain eng stream chans max_samples st y)
  obtain buf t total_read where st: "st = (buf, t, total_read)"
    by (cases st)
  define c0 where "c0 = sonicReadShortFromStream stream (sint (max_samples - total_read))"
  define r where "r = read_result eng t stream (sint (max_samples - total_read))"
  show ?case
  proof (cases "0 < sint (fst r) \<and> \<not> sint max_samples \<le> sint (total_read + fst r)")
    case True
    with 1(2) have "drain eng stream chans max_samples
        (store_at (unat (total_read * chans)) (snd r) buf, t @ [c0], total_read + fst r) = Some y"
      by (simp add: st Let_def r_def [symmetric] c0_def)
    from 1(1) [OF this] obtain reads where
      "fst (snd y) = (t @ [c0]) @ reads"
      "\<forall>c \<in> set reads. \<exists>m. c = sonicReadShortFromStream stream m"
      by auto
    then show ?thesis
      by (intro exI [of _ "c0 # reads"]) (auto simp: st c0_def)
  next
    case False
    with 1(2) have "fst (snd y) = t @ [c0]"
      by (auto simp: st Let_def r_def [symmetric] c0_def split: if_splits)
    then show ?thesis
      by (intro exI [of _ "[c0]"]) (simp add: st c0_def)
  qed
qed

text \<open>The format check, case by case.\<close>

lemma cleanup_stream_eq:
  "cleanup_stream (s, t) = (s\<lparr>m_stream := None\<rparr>, t @ teardown_calls s)"
  by (cases "m_stream s") (simp_all add: cleanup_stream_def teardown_calls_def)

lemma init_stream_eq:
  "init_stream eng sample_rate chans (s, t) =
     (case create_result eng t sample_rate chans of
        None \<Rightarrow> (False, s\<lparr>m_stream := None\<rparr>, t @ [sonicCreateStream sample_rate chans])
      | Some stream \<Rightarrow>
          (True, s\<lparr>m_stream := Some stream\<rparr>,
           t @ [sonicCreateStream sample_rate chans] @ setup_calls (m_config s) stream))"
  by (simp add: init_stream_def setup_calls_def Let_def split: option.split)

lemma check_format_same:
  "\<not> format_differs s chunk \<Longrightarrow> check_format eng chunk (s, t) = (True, s, t)"
  by (simp add: check_format_def)

lemma check_format_differs:
  "format_differs s chunk \<Longrightarrow>
   check_format eng chunk (s, t) =
     (case create_result eng (t @ teardown_calls s) (srate chunk) (channels chunk) of
        None \<Rightarrow>
          (False, s\<lparr>m_stream := None\<rparr>,
           t @ teardown_calls s @ [sonicCreateStream (srate chunk) (channels chunk)])
      | Some stream \<Rightarrow>
          (True, bound_to stream chunk s,
           t @ teardown_calls s @ [sonicCreateStream (srate chunk) (channels chunk)] @
             setup_calls (m_config s) stream))"
  by (simp add: check_format_def cleanup_stream_eq init_stream_eq bound_to_def
      split: option.split)

lemma on_chunk_default:
  "is_default (m_config s) \<Longrightarrow> on_chunk eng (s, t, chunk) = Some (True, s, t, chunk)"
  by (simp add: on_chunk_def)

lemma on_chunk_unbound:
  "\<not> format_differs s chunk \<Longrightarrow> m_stream s = None \<Longrightarrow>
   on_chunk eng (s, t, chunk) = Some (True, s, t, chunk)"
  by (simp add: on_chunk_def check_format_same)

lemma on_chunk_create_fails:
  assumes "\<not> is_default (m_config s)" "format_differs s chunk"
    "create_result eng (t @ teardown_calls s) (srate chunk) (channels chunk) = None"
  shows "on_chunk eng (s, t, chunk) =
    Some (True, s\<lparr>m_stream := None\<rparr>,
     t @ teardown_calls s @ [sonicCreateStream (srate chunk) (channels chunk)], chunk)"
  using assms by (simp add: on_chunk_def check_format_differs)

lemma on_chunk_create_succeeds:
  assumes "\<not> is_default (m_config s)" "format_differs s chunk"
    "create_result eng (t @ teardown_calls s) (srate chunk) (channels chunk) = Some stream"
  shows "on_chunk eng (s, t, chunk) =
    process eng stream
      (bound_to stream chunk s,
       t @ teardown_calls s @ [sonicCreateStream (srate chunk) (channels chunk)] @
         setup_calls (m_config s) stream,
       chunk)"
  using assms by (simp add: on_chunk_def check_format_differs bound_to_def)

text \<open>The two branches after the drain loop.\<close>

lemma array_read_replicate: "array_read (replicate n z) n = replicate n z"
  by (simp add: array_read_def list_eq_iff_nth_eq)

lemma length_resize: "length (resize n z xs) = n"
  by (simp add: resize_def)

lemma map_const_resize: "map (\<lambda>_. c) (resize n z xs) = replicate n c"
  by (simp add: map_replicate_const length_resize)

lemma set_data_silence:
  "set_data (silence (sample_count chunk * unat (channels chunk))) (sample_count chunk)
     (channels chunk) (srate chunk) (channel_config chunk) chunk =
   chunk\<lparr>chunk_data := silence (sample_count chunk * unat (channels chunk))\<rparr>"
  by (simp add: set_data_def array_read_replicate silence_def)

lemma emit_silence:
  "total_read \<le> 0 \<Longrightarrow>
   emit total_read (s, chunk) =
     (s\<lparr>m_audio_output := silence (sample_count chunk * unat (channels chunk))\<rparr>,
      chunk\<lparr>chunk_data := silence (sample_count chunk * unat (channels chunk))\<rparr>)"
  by (simp add: emit_def Let_def map_const_resize set_data_def array_read_replicate silence_def)

lemma emit_frame:
  "m_stream (fst (emit n (s, chunk))) = m_stream s \<and>
   m_config (fst (emit n (s, chunk))) = m_config s \<and>
   m_sample_rate (fst (emit n (s, chunk))) = m_sample_rate s \<and>
   m_channels (fst (emit n (s, chunk))) = m_channels s \<and>
   m_channel_config (fst (emit n (s, chunk))) = m_channel_config s"
  by (simp add: emit_def Let_def)

lemma emit_count:
  "sample_count (snd (emit n (s, chunk))) = (if 0 < n then nat n else sample_count chunk)"
  by (simp add: emit_def Let_def set_data_def)

text \<open>The drain loop as \<^verbatim>\<open>on_chunk\<close> runs it, and what the rest of \<^verbatim>\<open>on_chunk\<close> keeps.\<close>

lemma read_all_reads:
  assumes "read_all eng stream chunk (s, t) = Some y"
  shows "\<exists>reads. snd (snd y) = t @ reads \<and>
     (\<forall>c \<in> set reads. \<exists>m. c = sonicReadShortFromStream stream m)"
proof -
  define mx :: int32 where "mx = word_of_nat (sample_count chunk * 4)"
  define buf where "buf = resize (unat (mx * channels chunk)) 0 (m_output_buffer s)"
  from assms obtain z where z: "drain eng stream (channels chunk) mx (buf, t, 0) = Some z"
    and y: "snd (snd y) = fst (snd z)"
    by (auto simp: read_all_def Let_def mx_def buf_def split: option.splits)
  from drain_reads [OF z] y show ?thesis by simp
qed

lemma read_all_frame:
  assumes "read_all eng stream chunk (s, t) = Some y"
  shows "fst (snd y) = s\<lparr>m_output_buffer := m_output_buffer (fst (snd y))\<rparr>"
  using assms by (auto simp: read_all_def Let_def split: option.splits)

lemma read_all_returns:
  assumes "read_honours_max eng"
  shows "\<exists>total s' reads.
     read_all eng stream chunk (s, t) = Some (total, s', t @ reads) \<and>
     0 \<le> total \<and> total \<le> 4 * int (sample_count chunk) \<and>
     length reads \<le> 4 * sample_count chunk + 1 \<and>
     (\<forall>c \<in> set reads. \<exists>m. c = sonicReadShortFromStream stream m \<and>
        m \<le> 4 * int (sample_count chunk))"
proof -
  define mx :: int32 where "mx = word_of_nat (sample_count chunk * 4)"
  define buf where "buf = resize (unat (mx * channels chunk)) 0 (m_output_buffer s)"
  have mx: "sint mx \<le> 4 * int (sample_count chunk)"
    using to_int_le [of "sample_count chunk * 4"] by (simp add: mx_def to_int_def)
  from drain_returns [OF assms, of 0 mx stream "channels chunk" buf t]
  obtain buf' reads total' where d:
    "drain eng stream (channels chunk) mx (buf, t, 0) = Some (buf', t @ reads, total')"
    "0 \<le> sint total'" "sint total' \<le> max (sint mx) 0"
    "int (length reads) \<le> max 1 (sint mx)"
    "\<forall>c \<in> set reads. \<exists>m. c = sonicReadShortFromStream stream m \<and> m \<le> sint mx"
    by auto
  have "read_all eng stream chunk (s, t) =
      Some (sint total', s\<lparr>m_output_buffer := buf'\<rparr>, t @ reads)"
    using d(1) by (simp add: read_all_def Let_def mx_def buf_def)
  moreover have "sint total' \<le> 4 * int (sample_count chunk)"
    using d(3) mx by simp
  moreover have "length reads \<le> 4 * sample_count chunk + 1"
    using d(4) mx by linarith
  moreover have "\<forall>c \<in> set reads. \<exists>m. c = sonicReadShortFromStream stream m \<and>
      m \<le> 4 * int (sample_count chunk)"
    using d(5) mx by fastforce
  ultimately show ?thesis
    using d(2) by blast
qed

lemma process_rejected:
  "fst (write_input eng stream chunk (convert_input chunk s, t)) = 0 \<Longrightarrow>
   process eng stream (s, t, chunk) =
     Some (True, convert_input chunk s,
           snd (write_input eng stream chunk (convert_input chunk s, t)), chunk)"
  by (simp add: process_def Let_def split_beta)

lemma process_written:
  "fst (write_input eng stream chunk (convert_input chunk s, t)) \<noteq> 0 \<Longrightarrow>
   process eng stream (s, t, chunk) =
     (case read_all eng stream chunk
             (convert_input chunk s,
              snd (write_input eng stream chunk (convert_input chunk s, t))) of
        None \<Rightarrow> None
      | Some (total_read, s', t') \<Rightarrow>
          Some (True, fst (emit total_read (s', chunk)), t',
                snd (emit total_read (s', chunk))))"
  by (simp add: process_def Let_def split_beta split: option.split)

lemma process_frame:
  assumes "process eng stream (s, t, chunk) = Some r"
  shows "fst r \<and>
   m_stream (fst (snd r)) = m_stream s \<and>
   m_config (fst (snd r)) = m_config s \<and>
   m_sample_rate (fst (snd r)) = m_sample_rate s \<and>
   m_channels (fst (snd r)) = m_channels s \<and>
   m_channel_config (fst (snd r)) = m_channel_config s"
proof (cases "fst (write_input eng stream chunk (convert_input chunk s, t)) = 0")
  case True
  with assms show ?thesis
    by (auto simp: process_rejected convert_input_def Let_def)
next
  case False
  with assms obtain total_read s' t' where
    ra: "read_all eng stream chunk
           (convert_input chunk s,
            snd (write_input eng stream chunk (convert_input chunk s, t))) =
         Some (total_read, s', t')"
    and r: "r = (True, fst (emit total_read (s', chunk)), t', snd (emit total_read (s', chunk)))"
    by (auto simp: process_written split: option.splits)
  from read_all_frame [OF ra]
  have "s' = (convert_input chunk s)\<lparr>m_output_buffer := m_output_buffer s'\<rparr>"
    by simp
  then have "m_stream s' = m_stream s \<and> m_config s' = m_config s \<and>
      m_sample_rate s' = m_sample_rate s \<and> m_channels s' = m_channels s \<and>
      m_channel_config s' = m_channel_config s"
    by (metis (no_types, lifting) convert_input_def dsp_speedy.select_convs(1-5)
        dsp_speedy.surjective dsp_speedy.update_convs(6,7))
  then show ?thesis
    by (simp add: r emit_frame)
qed

lemma process_calls:
  assumes "process eng stream (s, t, chunk) = Some r"
  shows "\<exists>ext. fst (snd (snd r)) = t @ ext \<and> (\<forall>c \<in> set ext. is_transfer stream c)"
proof -
  define s1 where "s1 = convert_input chunk s"
  define w where
    "w = sonicWriteShortToStream stream (m_input_buffer s1) (to_int (sample_count chunk))"
  have t1: "snd (write_input eng stream chunk (s1, t)) = t @ [w]"
    by (simp add: write_input_def w_def)
  show ?thesis
  proof (cases "fst (write_input eng stream chunk (s1, t)) = 0")
    case True
    with assms have "fst (snd (snd r)) = t @ [w]"
      by (auto simp: process_rejected s1_def [symmetric] t1)
    then show ?thesis by (intro exI [of _ "[w]"]) (simp add: w_def)
  next
    case False
    with assms obtain y where
      ra: "read_all eng stream chunk (s1, t @ [w]) = Some y"
      and r: "fst (snd (snd r)) = snd (snd y)"
      by (auto simp: process_written s1_def [symmetric] t1 split: option.splits)
    from read_all_reads [OF ra] obtain reads where
      "snd (snd y) = (t @ [w]) @ reads"
      "\<forall>c \<in> set reads. \<exists>m. c = sonicReadShortFromStream stream m"
      by auto
    then show ?thesis
      using r by (intro exI [of _ "w # reads"]) (auto simp: w_def)
  qed
qed

lemma process_returns:
  assumes "read_honours_max eng"
  shows "\<exists>r. process eng stream (s, t, chunk) = Some r \<and>
     sample_count (snd (snd (snd r))) \<le> 4 * sample_count chunk"
proof (cases "fst (write_input eng stream chunk (convert_input chunk s, t)) = 0")
  case True
  then show ?thesis by (simp add: process_rejected)
next
  case False
  from read_all_returns [OF assms, of stream chunk "convert_input chunk s"
      "snd (write_input eng stream chunk (convert_input chunk s, t))"]
  obtain total s' t' where
    "read_all eng stream chunk
       (convert_input chunk s, snd (write_input eng stream chunk (convert_input chunk s, t))) =
     Some (total, s', t')"
    "0 \<le> total" "total \<le> 4 * int (sample_count chunk)"
    by blast
  then show ?thesis
    using False by (simp add: process_written emit_count nat_le_iff)
qed

lemma on_chunk_returns:
  assumes "read_honours_max eng"
  shows "\<exists>r. on_chunk eng (s, t, chunk) = Some r \<and>
     sample_count (snd (snd (snd r))) \<le> 4 * sample_count chunk"
proof -
  have "\<exists>r. process eng stream st = Some r \<and>
      sample_count (snd (snd (snd r))) \<le> 4 * sample_count (snd (snd st))" for stream st
    using process_returns [OF assms, of stream "fst st" "fst (snd st)" "snd (snd st)"] by simp
  then show ?thesis
    by (auto simp: on_chunk_def Let_def split_beta split: option.split)
qed

section \<open>Concrete instances\<close>

lemma valof_two: "valof 0x40000000 = Fin 2"
  by (simp add: valof_def pow2_def)

lemma is_default_new: "is_default dsp_speedy_config_new"
  by (simp add: is_default_def dsp_speedy_config_new_def kDefaultSpeed_def kDefaultPitch_def
      kDefaultRate_def kDefaultVolume_def kDefaultNonlinear_def valof_one)

lemma not_default_double_speed: "\<not> is_default config_double_speed"
  by (simp add: is_default_def config_double_speed_def dsp_speedy_config_new_def
      kDefaultSpeed_def valof_one valof_two)

lemma m_config_new: "m_config (dsp_speedy_new (make_preset c)) = c"
  by (simp add: dsp_speedy_new_def parse_make_preset)

lemma format_differs_new:
  "format_differs (dsp_speedy_new p) chunk_44100_stereo"
  by (simp add: format_differs_def dsp_speedy_new_def chunk_44100_stereo_def)

lemma teardown_calls_new: "teardown_calls (dsp_speedy_new p) = []"
  by (simp add: teardown_calls_def dsp_speedy_new_def)

lemma chunk_44100_stereo_fields:
  "sample_count chunk_44100_stereo = 2" "srate chunk_44100_stereo = 44100"
  "channels chunk_44100_stereo = 2" "channel_config chunk_44100_stereo = 3"
  by (simp_all add: chunk_44100_stereo_def)

text \<open>The drain loop with the four engines.\<close>

lemma read_all_accumulating:
  "read_all engine_accumulating stream chunk (s, t) =
     Some (0, s\<lparr>m_output_buffer :=
              resize (unat ((word_of_nat (sample_count chunk * 4) :: int32) * channels chunk))
                0 (m_output_buffer s)\<rparr>,
      t @ [sonicReadShortFromStream stream (to_int (sample_count chunk * 4))])"
  by (simp add: read_all_def Let_def drain_step engine_accumulating_def store_at_def to_int_def)

lemma read_honours_max_accumulating: "read_honours_max engine_accumulating"
  by (simp add: read_honours_max_def engine_accumulating_def)

lemma read_honours_max_flooding: "read_honours_max engine_flooding"
proof -
  have "sint (word_of_int k :: int32) \<le> k" if "0 \<le> k" for k
    using that by (simp add: sint_sbintrunc' signed_take_bit_int_less_eq_self_iff)
  then show ?thesis
    by (simp add: read_honours_max_def engine_flooding_def)
qed

lemma read_all_flooding:
  "map_option fst (read_all engine_flooding stream chunk_44100_stereo (s, t)) = Some 8"
  by (simp add: read_all_def Let_def drain_step engine_flooding_def chunk_44100_stereo_fields)

lemma read_all_overrunning:
  "map_option (\<lambda>r. (fst r, snd (snd r)))
     (read_all engine_overrunning stream chunk_44100_stereo (s, t)) =
   Some (1000, t @ [sonicReadShortFromStream stream 8])"
  by (simp add: read_all_def Let_def drain_step engine_overrunning_def chunk_44100_stereo_fields)

lemma read_all_overrunning_total:
  "map_option fst (read_all engine_overrunning stream chunk_44100_stereo (s, t)) = Some 1000"
  by (simp add: read_all_def Let_def drain_step engine_overrunning_def chunk_44100_stereo_fields)

text \<open>
  With the wrapping engine and \<^verbatim>\<open>max_samples = 8\<close> the loop runs through the totals
  0, 1, \<^verbatim>\<open>INT_MIN\<close>, -1 and 0 again, asking for 8, 7, \<^verbatim>\<open>INT_MIN + 8\<close> and 9 frames:
  it never ends.
\<close>

lemma int32_max_wrap: "(4294967295 :: int32) = - 1"
  by simp

lemma drain_wrapping_cycle:
  assumes "drain eng stream chans mx st = Some y"
  shows "\<not> (eng = engine_wrapping \<and> mx = 8 \<and>
            snd (snd st) \<in> {0, 1, 0x80000000, - 1})"
  using assms
proof (induction rule: drain.raw_induct [rotated 1, consumes 1])
  case (1 drain eng stream chans max_samples st y)
  note ih = 1(1) and body = 1(2)
  show ?case
  proof
    assume a: "eng = engine_wrapping \<and> max_samples = 8 \<and>
      snd (snd st) \<in> {0, 1, 0x80000000, - 1}"
    obtain buf t total_read where st: "st = (buf, t, total_read)"
      by (cases st)
    from a st consider "total_read = 0" | "total_read = 1" | "total_read = 0x80000000"
      | "total_read = - 1" by auto
    then show False
    proof cases
      case 1
      with body a st
      have "\<exists>buf' t'. drain eng stream chans max_samples (buf', t', 1) = Some y"
        by (auto simp: engine_wrapping_def Let_def)
      then show False using ih a by fastforce
    next
      case 2
      with body a st
      have "\<exists>buf' t'. drain eng stream chans max_samples (buf', t', 0x80000000) = Some y"
        by (auto simp: engine_wrapping_def Let_def)
      then show False using ih a by fastforce
    next
      case 3
      with body a st
      have "\<exists>buf' t'. drain eng stream chans max_samples (buf', t', - 1) = Some y"
        by (auto simp: engine_wrapping_def Let_def int32_max_wrap)
      then show False using ih a by fastforce
    next
      case 4
      with body a st
      have "\<exists>buf' t'. drain eng stream chans max_samples (buf', t', 0) = Some y"
        by (auto simp: engine_wrapping_def Let_def)
      then show False using ih a by fastforce
    qed
  qed
qed

lemma drain_wrapping: "drain engine_wrapping stream chans 8 (buf, t, 0) = None"
proof (cases "drain engine_wrapping stream chans 8 (buf, t, 0)")
  case (Some y)
  from drain_wrapping_cycle [OF this] show ?thesis by simp
qed simp

lemma read_all_wrapping: "read_all engine_wrapping stream chunk_44100_stereo (s, t) = None"
  by (simp add: read_all_def Let_def chunk_44100_stereo_fields drain_wrapping)

text \<open>A freshly built adapter with doubled speed on the stereo chunk.\<close>

lemma check_format_new_accumulating:
  "check_format engine_accumulating chunk_44100_stereo
     (dsp_speedy_new (make_preset config_double_speed), []) =
   (True, bound_to 1 chunk_44100_stereo (dsp_speedy_new (make_preset config_double_speed)),
    sonicCreateStream 44100 2 # setup_calls config_double_speed 1)"
  using check_format_differs [OF format_differs_new, of engine_accumulating
      "make_preset config_double_speed" "[]"]
  by (simp add: teardown_calls_new m_config_new engine_accumulating_def
      chunk_44100_stereo_fields)

lemma create_result_accumulating:
  "create_result engine_accumulating t sample_rate chans = Some 1"
  by (simp add: engine_accumulating_def)

lemma write_input_accumulating:
  "write_input engine_accumulating stream chunk (s, t) =
     (1, t @ [sonicWriteShortToStream stream (m_input_buffer s) (to_int (sample_count chunk))])"
  by (simp add: write_input_def engine_accumulating_def)

lemma dsp_speedy_new_unbound: "(dsp_speedy_new p)\<lparr>m_stream := None\<rparr> = dsp_speedy_new p"
  by (simp add: dsp_speedy_new_def)

lemma setup_calls_double_speed:
  "setup_calls config_double_speed stream =
     [sonicSetSpeed stream 0x40000000, sonicIntSetPitch stream 0x3F800000,
      sonicSetRate stream 0x3F800000, sonicIntSetVolume stream 0x3F800000]"
  by (simp add: setup_calls_def config_double_speed_def dsp_speedy_config_new_def
      kDefaultPitch_def kDefaultRate_def kDefaultVolume_def kDefaultNonlinear_def)

lemma process_count_eq:
  assumes "fst (write_input eng stream chunk (convert_input chunk s, t)) \<noteq> 0"
  shows "map_option (\<lambda>r. sample_count (snd (snd (snd r)))) (process eng stream (s, t, chunk)) =
     map_option (\<lambda>n. if 0 < n then nat n else sample_count chunk)
       (map_option fst
          (read_all eng stream chunk
             (convert_input chunk s,
              snd (write_input eng stream chunk (convert_input chunk s, t)))))"
proof (cases "read_all eng stream chunk
    (convert_input chunk s, snd (write_input eng stream chunk (convert_input chunk s, t)))")
  case None
  with assms show ?thesis by (simp add: process_written)
next
  case (Some y)
  with assms show ?thesis by (cases y) (simp add: process_written emit_count)
qed

lemma on_chunk_new_double_speed:
  assumes "create_result eng [] 44100 2 = Some 1"
  shows "on_chunk eng
      (dsp_speedy_new (make_preset config_double_speed), [], chunk_44100_stereo) =
    process eng 1
      (bound_to 1 chunk_44100_stereo (dsp_speedy_new (make_preset config_double_speed)),
       sonicCreateStream 44100 2 # setup_calls config_double_speed 1, chunk_44100_stereo)"
proof -
  have nd: "\<not> is_default (m_config (dsp_speedy_new (make_preset config_double_speed)))"
    by (simp add: m_config_new not_default_double_speed)
  note fd = format_differs_new [of "make_preset config_double_speed"]
  show ?thesis
    using on_chunk_create_succeeds [OF nd fd, of eng "[]" 1] assms
    by (simp add: teardown_calls_new chunk_44100_stereo_fields m_config_new)
qed

lemma on_chunk_flooding_count:
  "map_option (\<lambda>r. sample_count (snd (snd (snd r))))
     (on_chunk engine_flooding
        (dsp_speedy_new (make_preset config_double_speed), [], chunk_44100_stereo)) = Some 8"
proof -
  have "create_result engine_flooding [] 44100 2 = Some 1"
    by (simp add: engine_flooding_def)
  moreover have "fst (write_input engine_flooding stream chunk (s, t)) = 1" for stream chunk s t
    by (simp add: write_input_def engine_flooding_def)
  ultimately show ?thesis
    by (simp add: on_chunk_new_double_speed process_count_eq read_all_flooding)
qed

lemma on_chunk_overrunning_count:
  "map_option (\<lambda>r. sample_count (snd (snd (snd r))))
     (on_chunk engine_overrunning
        (dsp_speedy_new (make_preset config_double_speed), [], chunk_44100_stereo)) = Some 1000"
proof -
  have "create_result engine_overrunning [] 44100 2 = Some 1"
    by (simp add: engine_overrunning_def)
  moreover have "fst (write_input engine_overrunning stream chunk (s, t)) = 1"
    for stream chunk s t
    by (simp add: write_input_def engine_overrunning_def)
  ultimately show ?thesis
    by (simp add: on_chunk_new_double_speed process_count_eq read_all_overrunning_total)
qed

lemma on_chunk_wrapping:
  "on_chunk engine_wrapping
     (dsp_speedy_new (make_preset config_double_speed), [], chunk_44100_stereo) = None"
proof -
  have "create_result engine_wrapping [] 44100 2 = Some 1"
    by (simp add: engine_wrapping_def)
  moreover have "fst (write_input engine_wrapping stream chunk (s, t)) = 1"
    for stream chunk s t
    by (simp add: write_input_def engine_wrapping_def)
  ultimately show ?thesis
    by (simp add: on_chunk_new_double_speed process_written read_all_wrapping)
qed

section \<open>The per-buffer operation\<close>

text \<open>
  Claim C1 (pass-through identity). With a parameter record at its default state,
  \<open>on_chunk\<close> returns true and gives back the adapter's state, the list of engine calls
  and the chunk exactly as it received them: no engine call is made (so no session is
  created), no buffer of the adapter is touched, and the chunk is the input chunk.
\<close>

theorem default_pass_through:
  "is_default (m_config s) \<Longrightarrow> on_chunk eng (s, t, chunk) = Some (True, s, t, chunk)"
  by (simp add: on_chunk_def)

text \<open>
  The hypothesis of C1 at the adapter built from the default preset, a stereo chunk and an
  engine that would accept everything.
\<close>

theorem default_pass_through_witness:
  "is_default (m_config (dsp_speedy_new (make_preset dsp_speedy_config_new))) \<and>
   on_chunk engine_accumulating
     (dsp_speedy_new (make_preset dsp_speedy_config_new), [], chunk_44100_stereo) =
   Some (True, dsp_speedy_new (make_preset dsp_speedy_config_new), [], chunk_44100_stereo)"
  using default_pass_through [of "dsp_speedy_new (make_preset dsp_speedy_config_new)"
      engine_accumulating "[]" chunk_44100_stereo]
  by (simp add: m_config_new is_default_new)

text \<open>
  Claim C2 fails as stated: the loop adds whatever the engine reports to
  \<^verbatim>\<open>total_read\<close> and only then compares with the cap. With a non-default parameter
  record and a chunk of two frames, an engine that reports a thousand frames on a read
  that asked for eight makes the loop drain a thousand frames, and \<open>on_chunk\<close> hands
  back a chunk of a thousand frames, where the cap is eight.
\<close>

theorem drain_overrun_counterexample:
  "\<not> is_default (m_config (dsp_speedy_new (make_preset config_double_speed))) \<and>
   map_option (\<lambda>r. (fst r, snd (snd r)))
     (read_all engine_overrunning 1 chunk_44100_stereo
        (dsp_speedy_new (make_preset config_double_speed), [])) =
   Some (1000, [sonicReadShortFromStream 1 8]) \<and>
   map_option (\<lambda>r. sample_count (snd (snd (snd r))))
     (on_chunk engine_overrunning
        (dsp_speedy_new (make_preset config_double_speed), [], chunk_44100_stereo)) =
   Some 1000 \<and>
   4 * sample_count chunk_44100_stereo = 8"
  by (simp add: m_config_new not_default_double_speed read_all_overrunning
      on_chunk_overrunning_count chunk_44100_stereo_fields)

text \<open>
  Claim C2, amended (drain cap). With an engine whose read returns no more than the
  maximum it is asked for, however many frames it has to offer, the drain loop on a chunk
  of \<open>N\<close> frames ends: it makes at most \<open>4 * N + 1\<close> reads, none of them asks for more
  than \<open>4 * N\<close> frames, and the number of frames drained is between 0 and \<open>4 * N\<close>.
  \<open>on_chunk\<close> then returns, and the chunk it hands back has at most \<open>4 * N\<close> frames.
\<close>

theorem drain_cap:
  assumes "read_honours_max eng"
  shows
    "(\<exists>total s' reads.
        read_all eng stream chunk (s, t) = Some (total, s', t @ reads) \<and>
        0 \<le> total \<and> total \<le> 4 * int (sample_count chunk) \<and>
        length reads \<le> 4 * sample_count chunk + 1 \<and>
        (\<forall>c \<in> set reads. \<exists>m. c = sonicReadShortFromStream stream m \<and>
           m \<le> 4 * int (sample_count chunk))) \<and>
     (\<exists>r. on_chunk eng (s, t, chunk) = Some r \<and>
        sample_count (snd (snd (snd r))) \<le> 4 * sample_count chunk)"
  using read_all_returns [OF assms, of stream chunk s t] on_chunk_returns [OF assms, of s t chunk]
  by blast

text \<open>
  The hypothesis of the amended C2 at an engine that fills every read completely: on a
  chunk of two frames the loop stops at eight frames, and eight frames are emitted.
\<close>

theorem drain_cap_witness:
  "read_honours_max engine_flooding \<and>
   map_option fst
     (read_all engine_flooding 1 chunk_44100_stereo
        (dsp_speedy_new (make_preset config_double_speed), [])) = Some 8 \<and>
   map_option (\<lambda>r. sample_count (snd (snd (snd r))))
     (on_chunk engine_flooding
        (dsp_speedy_new (make_preset config_double_speed), [], chunk_44100_stereo)) = Some 8 \<and>
   4 * sample_count chunk_44100_stereo = 8"
  using drain_cap [OF read_honours_max_flooding, of 1 chunk_44100_stereo
      "dsp_speedy_new (make_preset config_double_speed)" "[]"]
  by (simp add: read_honours_max_flooding read_all_flooding on_chunk_flooding_count
      chunk_44100_stereo_fields)

text \<open>
  Claim C3 (silence substitution). With a non-default parameter record, a live stream
  after the format check and an accepted write, if the drain loop yields zero frames then
  \<open>on_chunk\<close> replaces the chunk's contents through \<open>set_data\<close> with
  \<open>N * channels\<close> zeros, that is \<open>N\<close> frames of silence, and with the chunk's own
  sample count \<open>N\<close>, channel count, sample rate and channel layout: the chunk that comes
  back is the input chunk with its samples set to zero.
\<close>

theorem silence_substitution:
  assumes "\<not> is_default (m_config s)"
    and "check_format eng chunk (s, t) = (True, s1, t1)"
    and "m_stream s1 = Some stream"
    and "write_input eng stream chunk (convert_input chunk s1, t1) = (written, t2)"
    and "written \<noteq> 0"
    and "read_all eng stream chunk (convert_input chunk s1, t2) = Some (0, s3, t3)"
  shows "on_chunk eng (s, t, chunk) =
      Some (True, s3\<lparr>m_audio_output := silence (sample_count chunk * unat (channels chunk))\<rparr>,
        t3,
        set_data (silence (sample_count chunk * unat (channels chunk))) (sample_count chunk)
          (channels chunk) (srate chunk) (channel_config chunk) chunk) \<and>
    set_data (silence (sample_count chunk * unat (channels chunk))) (sample_count chunk)
        (channels chunk) (srate chunk) (channel_config chunk) chunk =
      chunk\<lparr>chunk_data := silence (sample_count chunk * unat (channels chunk))\<rparr>"
  using assms by (simp add: on_chunk_def process_def emit_silence set_data_silence)

text \<open>
  The hypotheses of C3 at a freshly built adapter with doubled speed, an engine that has
  no output ready, and a stereo chunk of two frames.
\<close>

theorem silence_substitution_witness:
  "\<not> is_default (m_config (dsp_speedy_new (make_preset config_double_speed))) \<and>
   map_option fst (on_chunk engine_accumulating
     (dsp_speedy_new (make_preset config_double_speed), [], chunk_44100_stereo)) =
   Some True \<and>
   map_option (\<lambda>r. snd (snd (snd r))) (on_chunk engine_accumulating
     (dsp_speedy_new (make_preset config_double_speed), [], chunk_44100_stereo)) =
   Some \<lparr>chunk_data = silence 4, sample_count = 2, srate = 44100, channels = 2,
     channel_config = 3\<rparr> \<and>
   silence 4 = [Fin 0, Fin 0, Fin 0, Fin 0]"
proof -
  have nd: "\<not> is_default (m_config (dsp_speedy_new (make_preset config_double_speed)))"
    by (simp add: m_config_new not_default_double_speed)
  have "\<exists>s' t'. on_chunk engine_accumulating
      (dsp_speedy_new (make_preset config_double_speed), [], chunk_44100_stereo) =
    Some (True, s', t',
     chunk_44100_stereo
       \<lparr>chunk_data :=
          silence (sample_count chunk_44100_stereo * unat (channels chunk_44100_stereo))\<rparr>)"
    using silence_substitution [OF nd check_format_new_accumulating _
        write_input_accumulating _ read_all_accumulating, of 1]
    by (simp add: bound_to_def)
  then have "map_option fst (on_chunk engine_accumulating
      (dsp_speedy_new (make_preset config_double_speed), [], chunk_44100_stereo)) =
    Some True \<and>
    map_option (\<lambda>r. snd (snd (snd r))) (on_chunk engine_accumulating
      (dsp_speedy_new (make_preset config_double_speed), [], chunk_44100_stereo)) =
    Some (chunk_44100_stereo
      \<lparr>chunk_data :=
         silence (sample_count chunk_44100_stereo * unat (channels chunk_44100_stereo))\<rparr>)"
    by auto
  moreover have "silence 4 = [Fin 0, Fin 0, Fin 0, Fin 0]"
    by (simp add: silence_def numeral_eq_Suc)
  ultimately show ?thesis
    using nd by (simp add: chunk_44100_stereo_def)
qed

text \<open>
  Claim C4 fails as stated for a default parameter record: the chunk's format differs from
  the stored one and the engine could be created, yet \<open>on_chunk\<close> makes no call at all
  and changes nothing, because the default fast path comes before the format check.
\<close>

theorem default_config_no_rebuild_counterexample:
  "format_differs (dsp_speedy_new (make_preset dsp_speedy_config_new)) chunk_44100_stereo \<and>
   create_result engine_accumulating [] (srate chunk_44100_stereo) (channels chunk_44100_stereo)
     = Some 1 \<and>
   on_chunk engine_accumulating
     (dsp_speedy_new (make_preset dsp_speedy_config_new), [], chunk_44100_stereo) =
   Some (True, dsp_speedy_new (make_preset dsp_speedy_config_new), [], chunk_44100_stereo)"
  by (simp add: format_differs_new on_chunk_default m_config_new is_default_new)
    (simp add: engine_accumulating_def)

text \<open>
  Claim C4, amended. With a non-default parameter record, a chunk whose (rate, channels,
  layout) differs from the stored triple makes \<open>on_chunk\<close> first destroy the live stream
  if there is one and then ask the engine for a stream of the chunk's rate and channel
  count. If that fails, the stream is unbound, nothing else of the state changes and the
  chunk is returned as it came. If it succeeds, speed, pitch, rate and volume of the
  parameter record are applied in this order, then the nonlinear mode with its factor if
  it is enabled, and the rest of \<open>on_chunk\<close> runs with the adapter bound to the new
  stream and the chunk's triple. When \<open>on_chunk\<close> returns, the adapter is still bound to
  them, and every later call of this \<open>on_chunk\<close> was a write to or a read from the new
  stream. It returns with every engine that honours the contract of its read.
\<close>

theorem format_change_rebuild:
  assumes "\<not> is_default (m_config s)" and "format_differs s chunk"
  shows
    "case create_result eng (t @ teardown_calls s) (srate chunk) (channels chunk) of
       None \<Rightarrow>
         on_chunk eng (s, t, chunk) =
           Some (True, s\<lparr>m_stream := None\<rparr>,
             t @ teardown_calls s @ [sonicCreateStream (srate chunk) (channels chunk)], chunk)
     | Some stream \<Rightarrow>
         on_chunk eng (s, t, chunk) =
           process eng stream
             (bound_to stream chunk s,
              t @ teardown_calls s @ [sonicCreateStream (srate chunk) (channels chunk)] @
                setup_calls (m_config s) stream,
              chunk) \<and>
         (\<forall>r. on_chunk eng (s, t, chunk) = Some r \<longrightarrow>
            fst (snd r) =
              bound_to stream chunk
                (s\<lparr>m_input_buffer := m_input_buffer (fst (snd r)),
                   m_output_buffer := m_output_buffer (fst (snd r)),
                   m_audio_output := m_audio_output (fst (snd r))\<rparr>) \<and>
            (\<exists>ext. fst (snd (snd r)) =
                     t @ teardown_calls s @ [sonicCreateStream (srate chunk) (channels chunk)] @
                       setup_calls (m_config s) stream @ ext \<and>
                   (\<forall>c \<in> set ext. is_transfer stream c))) \<and>
         (read_honours_max eng \<longrightarrow> (\<exists>r. on_chunk eng (s, t, chunk) = Some r))"
proof (cases "create_result eng (t @ teardown_calls s) (srate chunk) (channels chunk)")
  case None
  then show ?thesis using assms by (simp add: on_chunk_create_fails)
next
  case (Some stream)
  define t1 where "t1 = t @ teardown_calls s @
    [sonicCreateStream (srate chunk) (channels chunk)] @ setup_calls (m_config s) stream"
  have eq: "on_chunk eng (s, t, chunk) = process eng stream (bound_to stream chunk s, t1, chunk)"
    using assms Some by (simp add: on_chunk_create_succeeds t1_def)
  have calls: "\<exists>ext. fst (snd (snd r)) = t1 @ ext \<and> (\<forall>c \<in> set ext. is_transfer stream c)"
    if "process eng stream (bound_to stream chunk s, t1, chunk) = Some r" for r
    using process_calls [OF that] .
  have frame: "fst (snd r) =
      bound_to stream chunk
        (s\<lparr>m_input_buffer := m_input_buffer (fst (snd r)),
           m_output_buffer := m_output_buffer (fst (snd r)),
           m_audio_output := m_audio_output (fst (snd r))\<rparr>)"
    if "process eng stream (bound_to stream chunk s, t1, chunk) = Some r" for r
    using process_frame [OF that] by (simp add: bound_to_def)
  have returns: "\<exists>r. process eng stream (bound_to stream chunk s, t1, chunk) = Some r"
    if "read_honours_max eng"
    using process_returns [OF that, of stream "bound_to stream chunk s" t1 chunk] by blast
  show ?thesis
    using Some eq calls frame returns by (simp add: t1_def)
qed

text \<open>
  The hypotheses of the amended C4 at a freshly built adapter with doubled speed and a
  stereo chunk, once with an engine that cannot be created and once with one that can.
\<close>

theorem format_change_rebuild_witness:
  "\<not> is_default (m_config (dsp_speedy_new (make_preset config_double_speed))) \<and>
   format_differs (dsp_speedy_new (make_preset config_double_speed)) chunk_44100_stereo \<and>
   on_chunk engine_unavailable
     (dsp_speedy_new (make_preset config_double_speed), [], chunk_44100_stereo) =
   Some (True, dsp_speedy_new (make_preset config_double_speed), [sonicCreateStream 44100 2],
     chunk_44100_stereo) \<and>
   on_chunk engine_accumulating
     (dsp_speedy_new (make_preset config_double_speed), [], chunk_44100_stereo) =
   process engine_accumulating 1
     (bound_to 1 chunk_44100_stereo (dsp_speedy_new (make_preset config_double_speed)),
      [sonicCreateStream 44100 2, sonicSetSpeed 1 0x40000000, sonicIntSetPitch 1 0x3F800000,
       sonicSetRate 1 0x3F800000, sonicIntSetVolume 1 0x3F800000],
      chunk_44100_stereo) \<and>
   read_honours_max engine_accumulating \<and>
   on_chunk engine_accumulating
     (dsp_speedy_new (make_preset config_double_speed), [], chunk_44100_stereo) \<noteq> None"
proof -
  have nd: "\<not> is_default (m_config (dsp_speedy_new (make_preset config_double_speed)))"
    by (simp add: m_config_new not_default_double_speed)
  note fd = format_differs_new [of "make_preset config_double_speed"]
  have "on_chunk engine_unavailable
     (dsp_speedy_new (make_preset config_double_speed), [], chunk_44100_stereo) =
   Some (True, dsp_speedy_new (make_preset config_double_speed), [sonicCreateStream 44100 2],
    chunk_44100_stereo)"
    using format_change_rebuild [OF nd fd, of engine_unavailable "[]"]
    by (simp add: teardown_calls_new engine_unavailable_def chunk_44100_stereo_fields
        dsp_speedy_new_unbound)
  moreover have
    "on_chunk engine_accumulating
       (dsp_speedy_new (make_preset config_double_speed), [], chunk_44100_stereo) =
     process engine_accumulating 1
       (bound_to 1 chunk_44100_stereo (dsp_speedy_new (make_preset config_double_speed)),
        [] @ teardown_calls (dsp_speedy_new (make_preset config_double_speed)) @
          [sonicCreateStream (srate chunk_44100_stereo) (channels chunk_44100_stereo)] @
          setup_calls (m_config (dsp_speedy_new (make_preset config_double_speed))) 1,
        chunk_44100_stereo)"
    and "read_honours_max engine_accumulating \<longrightarrow>
      (\<exists>r. on_chunk engine_accumulating
         (dsp_speedy_new (make_preset config_double_speed), [], chunk_44100_stereo) = Some r)"
    using format_change_rebuild [OF nd fd, of engine_accumulating "[]"]
    unfolding create_result_accumulating option.case by blast+
  ultimately show ?thesis
    using nd fd read_honours_max_accumulating
    by (auto simp: teardown_calls_new chunk_44100_stereo_fields m_config_new
        setup_calls_double_speed)
qed

text \<open>
  Claim C10. When the creation of the engine fails on a format change, \<open>on_chunk\<close>
  leaves the stored triple as it was and the stream unbound. Every later chunk whose
  triple equals the stored one is then passed through unchanged, with any engine and
  without any call to it: the format comparison finds no difference and the stream is
  null.
\<close>

theorem failed_rebuild_keeps_format:
  assumes "\<not> is_default (m_config s)" and "format_differs s chunk"
    and "create_result eng (t @ teardown_calls s) (srate chunk) (channels chunk) = None"
  shows "on_chunk eng (s, t, chunk) =
      Some (True, s\<lparr>m_stream := None\<rparr>,
        t @ teardown_calls s @ [sonicCreateStream (srate chunk) (channels chunk)], chunk) \<and>
    (\<not> format_differs s chunk' \<longrightarrow>
       on_chunk eng' (s\<lparr>m_stream := None\<rparr>, t', chunk') =
         Some (True, s\<lparr>m_stream := None\<rparr>, t', chunk'))"
  using assms on_chunk_unbound [of "s\<lparr>m_stream := None\<rparr>" chunk' eng' t']
  by (simp add: on_chunk_create_fails format_differs_def)

text \<open>
  The hypotheses of C10 at an adapter bound to 44100 Hz stereo: a chunk at 48000 Hz
  arrives while the engine cannot be created; the next chunk at 44100 Hz stereo passes
  through untouched although the engine is available again.
\<close>

theorem failed_rebuild_keeps_format_witness:
  "\<not> is_default (m_config
       (bound_to 1 chunk_44100_stereo (dsp_speedy_new (make_preset config_double_speed)))) \<and>
   format_differs
     (bound_to 1 chunk_44100_stereo (dsp_speedy_new (make_preset config_double_speed)))
     (chunk_44100_stereo\<lparr>srate := 48000\<rparr>) \<and>
   on_chunk engine_unavailable
     (bound_to 1 chunk_44100_stereo (dsp_speedy_new (make_preset config_double_speed)), [],
      chunk_44100_stereo\<lparr>srate := 48000\<rparr>) =
   Some (True,
    (bound_to 1 chunk_44100_stereo (dsp_speedy_new (make_preset config_double_speed)))
      \<lparr>m_stream := None\<rparr>,
    [sonicDestroyStream 1, sonicCreateStream 48000 2],
    chunk_44100_stereo\<lparr>srate := 48000\<rparr>) \<and>
   \<not> format_differs
     (bound_to 1 chunk_44100_stereo (dsp_speedy_new (make_preset config_double_speed)))
     chunk_44100_stereo \<and>
   on_chunk engine_accumulating
     ((bound_to 1 chunk_44100_stereo (dsp_speedy_new (make_preset config_double_speed)))
        \<lparr>m_stream := None\<rparr>,
      [sonicDestroyStream 1, sonicCreateStream 48000 2], chunk_44100_stereo) =
   Some (True,
    (bound_to 1 chunk_44100_stereo (dsp_speedy_new (make_preset config_double_speed)))
      \<lparr>m_stream := None\<rparr>,
    [sonicDestroyStream 1, sonicCreateStream 48000 2], chunk_44100_stereo)"
  using failed_rebuild_keeps_format
    [of "bound_to 1 chunk_44100_stereo (dsp_speedy_new (make_preset config_double_speed))"
      "chunk_44100_stereo\<lparr>srate := 48000\<rparr>" engine_unavailable "[]" chunk_44100_stereo
      engine_accumulating "[sonicDestroyStream 1, sonicCreateStream 48000 2]"]
  by (simp add: bound_to_def m_config_new not_default_double_speed format_differs_def
      teardown_calls_def)
    (simp add: engine_unavailable_def chunk_44100_stereo_def)
end
